theory Spec2Isabelle
  imports Main
begin

section \<open>JavaScript strings and numbers\<close>

text \<open>
  A JavaScript string is modelled as a \<^typ>\<open>string\<close>, one \<^typ>\<open>char\<close> per code unit, which
  covers the ASCII texts of the schedule export; letters and dashes beyond ASCII are outside
  the model. A value that may be \<^verbatim>\<open>null\<close> or
  \<^verbatim>\<open>undefined\<close> is an \<^typ>\<open>'a option\<close>; a number that may be \<^verbatim>\<open>NaN\<close> is an
  \<^typ>\<open>int option\<close>.
\<close>

text \<open>A thrown \<^verbatim>\<open>TypeError\<close>, or an \<^verbatim>\<open>Error\<close> with its message.\<close>

datatype js_error = TypeError | Error string

definition truthy :: "string option \<Rightarrow> bool" where
  "truthy v = (case v of None \<Rightarrow> False | Some s \<Rightarrow> s \<noteq> [])"

text \<open>
  A text property that the code also prints when it is absent keeps \<^verbatim>\<open>undefined\<close> and
  \<^verbatim>\<open>null\<close> apart, since a template literal prints each under its own name; \<open>known\<close>
  is the view of such a property in a test, where the two behave alike.
\<close>

datatype js_text = Undefined | Null | Text string

definition known :: "js_text \<Rightarrow> string option" where
  "known v = (case v of Text s \<Rightarrow> Some s | _ \<Rightarrow> None)"

definition template :: "js_text \<Rightarrow> string" where
  "template v = (case v of Undefined \<Rightarrow> ''undefined'' | Null \<Rightarrow> ''null'' | Text s \<Rightarrow> s)"

definition is_digit :: "char \<Rightarrow> bool" where
  "is_digit c = (c \<in> set ''0123456789'')"

text \<open>White space (\<^verbatim>\<open>\s\<close>, and what \<^verbatim>\<open>trim\<close> removes), among the code units below 256.\<close>

definition is_space :: "char \<Rightarrow> bool" where
  "is_space c = (c \<in> set [CHR '' '', CHR 0x09, CHR 0x0A, CHR 0x0B, CHR 0x0C, CHR 0x0D, CHR 0xA0])"

definition is_line_terminator :: "char \<Rightarrow> bool" where
  "is_line_terminator c = (c = CHR 0x0A \<or> c = CHR 0x0D)"

definition digit_val :: "char \<Rightarrow> nat" where
  "digit_val c = of_char c - 48"

definition digit_char :: "nat \<Rightarrow> char" where
  "digit_char n = ''0123456789'' ! n"

fun dec_value :: "nat \<Rightarrow> string \<Rightarrow> nat" where
  "dec_value acc [] = acc"
| "dec_value acc (c # cs) = dec_value (10 * acc + digit_val c) cs"

text \<open>\<^verbatim>\<open>String.prototype.trim\<close>.\<close>

definition trim :: "string \<Rightarrow> string" where
  "trim s = rev (dropWhile is_space (rev (dropWhile is_space s)))"

text \<open>
  \<^verbatim>\<open>Number(s)\<close> on a string: surrounding white space is dropped, the empty text is 0, an
  optionally signed run of decimal digits is its value. Every other text is \<^verbatim>\<open>NaN\<close>
  here; fractions, exponents, radix prefixes and \<^verbatim>\<open>Infinity\<close> do not occur in the
  dash- and colon-separated fields this program converts.
\<close>

definition Number :: "string \<Rightarrow> int option" where
  "Number s =
     (let t = trim s in
      if t = [] then Some 0
      else if list_all is_digit t then Some (int (dec_value 0 t))
      else (case t of
              c # u \<Rightarrow>
                if u \<noteq> [] \<and> list_all is_digit u \<and> c = CHR ''+'' then Some (int (dec_value 0 u))
                else if u \<noteq> [] \<and> list_all is_digit u \<and> c = CHR ''-'' then Some (- int (dec_value 0 u))
                else None
            | [] \<Rightarrow> None))"

text \<open>\<^verbatim>\<open>Number.prototype.toString\<close> on an integer, and on \<^verbatim>\<open>NaN\<close>.\<close>

function int_digits :: "int \<Rightarrow> string" where
  "int_digits n =
     (if n < 10 then [digit_char (nat n)] else int_digits (n div 10) @ [digit_char (nat (n mod 10))])"
  by pat_completeness auto
termination
  by (relation "measure nat") auto

declare int_digits.simps [simp del]

definition int_toString :: "int \<Rightarrow> string" where
  "int_toString i = (if i < 0 then CHR ''-'' # int_digits (- i) else int_digits i)"

definition num_toString :: "int option \<Rightarrow> string" where
  "num_toString v = (case v of None \<Rightarrow> ''NaN'' | Some i \<Rightarrow> int_toString i)"

text \<open>\<^verbatim>\<open>s.padStart(n, c)\<close> with a one-character filler.\<close>

definition padStart :: "nat \<Rightarrow> char \<Rightarrow> string \<Rightarrow> string" where
  "padStart n c s = replicate (n - length s) c @ s"

text \<open>\<^verbatim>\<open>s.split(c)\<close> with a one-character separator: never the empty list.\<close>

fun str_split :: "char \<Rightarrow> string \<Rightarrow> string list" where
  "str_split sep [] = [[]]"
| "str_split sep (c # cs) =
     (if c = sep then [] # str_split sep cs
      else (case str_split sep cs of
              p # ps \<Rightarrow> (c # p) # ps
            | [] \<Rightarrow> [[c]]))"

text \<open>\<^verbatim>\<open>xs[i]\<close>: \<^verbatim>\<open>undefined\<close> out of range.\<close>

definition index :: "'a list \<Rightarrow> nat \<Rightarrow> 'a option" where
  "index xs i = (if i < length xs then Some (xs ! i) else None)"

fun starts_with :: "string \<Rightarrow> string \<Rightarrow> bool" where
  "starts_with s [] = True"
| "starts_with [] (t # ts) = False"
| "starts_with (c # cs) (t # ts) = (c = t \<and> starts_with cs ts)"

text \<open>\<^verbatim>\<open>s.includes(t)\<close>.\<close>

fun str_includes :: "string \<Rightarrow> string \<Rightarrow> bool" where
  "str_includes [] t = (t = [])"
| "str_includes (c # cs) t = (starts_with (c # cs) t \<or> str_includes cs t)"

text \<open>\<^verbatim>\<open>s.toLowerCase()\<close> on ASCII letters.\<close>

definition lower_char :: "char \<Rightarrow> char" where
  "lower_char c =
     (case map_of (zip ''ABCDEFGHIJKLMNOPQRSTUVWXYZ'' ''abcdefghijklmnopqrstuvwxyz'') c of
        Some l \<Rightarrow> l
      | None \<Rightarrow> c)"

definition toLowerCase :: "string \<Rightarrow> string" where
  "toLowerCase s = map lower_char s"

text \<open>\<^verbatim>\<open>xs.join(sep)\<close> on an array of strings.\<close>

fun join :: "string \<Rightarrow> string list \<Rightarrow> string" where
  "join sep [] = []"
| "join sep [x] = x"
| "join sep (x # y # ys) = x @ sep @ join sep (y # ys)"

section \<open>parser.js\<close>

subsection \<open>convertTo24Hour\<close>

text \<open>
  \<^verbatim>\<open>const [hours, minutes] = time.split(':').map(Number)\<close>: \<^verbatim>\<open>hours\<close> always exists,
  \<^verbatim>\<open>minutes\<close> is \<^verbatim>\<open>undefined\<close> when the text has no colon, and then
  \<^verbatim>\<open>minutes.toString()\<close> throws.
\<close>

definition convertTo24Hour :: "string \<Rightarrow> string \<Rightarrow> js_error + string" where
  "convertTo24Hour time period =
     (case map Number (str_split CHR '':'' time) of
        [] \<Rightarrow> Inl TypeError
      | hours # rest \<Rightarrow>
          (let hour24 =
             (if str_includes period ''p.m.'' \<and> hours \<noteq> Some 12 then map_option (\<lambda>h. h + 12) hours
              else if str_includes period ''a.m.'' \<and> hours = Some 12 then Some 0
              else hours)
           in case rest of
                [] \<Rightarrow> Inl TypeError
              | minutes # _ \<Rightarrow>
                  Inr (padStart 2 CHR ''0'' (num_toString hour24) @ '':'' @
                       padStart 2 CHR ''0'' (num_toString minutes))))"

text \<open>The specification's reading: hour and minute as two decimal digits each.\<close>

definition two_digits :: "nat \<Rightarrow> string" where
  "two_digits n = [digit_char (n div 10), digit_char (n mod 10)]"

definition hour24_spec :: "nat \<Rightarrow> string \<Rightarrow> nat" where
  "hour24_spec h period =
     (if period = ''a.m.'' then (if h = 12 then 0 else h)
      else (if h = 12 then 12 else h + 12))"

subsection \<open>validateHeaders\<close>

text \<open>
  A cell of the grid is a text or \<^verbatim>\<open>null\<close>; \<^verbatim>\<open>headers.filter(h => h)\<close> keeps the
  non-empty texts.
\<close>

type_synonym cell = "string option"

definition criticalHeaders :: "string list" where
  "criticalHeaders = [''Drop'', ''Credits'', ''Grading'']"

definition headerString :: "cell list \<Rightarrow> string" where
  "headerString headers = toLowerCase (join '' '' [s. Some s \<leftarrow> headers, s \<noteq> []])"

definition validateHeaders :: "cell list option \<Rightarrow> bool" where
  "validateHeaders headers =
     (case headers of
        None \<Rightarrow> False
      | Some hs \<Rightarrow>
          if length hs < 5 then False
          else list_all (\<lambda>header. str_includes (headerString hs) (toLowerCase header)) criticalHeaders)"

text \<open>
  The contract in the specification's words: every critical term is a substring of the
  lower-cased concatenation of the non-null header cells.
\<close>

definition is_substring :: "string \<Rightarrow> string \<Rightarrow> bool" where
  "is_substring t s = (\<exists>p q. s = p @ t @ q)"

definition headers_contract :: "cell list \<Rightarrow> bool" where
  "headers_contract hs =
     (\<forall>t \<in> {''drop'', ''credits'', ''grading''}.
        is_substring t (toLowerCase (concat [s. Some s \<leftarrow> hs])))"

subsection \<open>Test data: the header row of the test suite\<close>

definition test_headers :: "cell list" where
  "test_headers =
     [Some ''Course Listing'', Some ''Drop'', Some ''Swap'', Some ''Credits'', Some ''Grading Basis'',
      Some ''Section'', Some ''Registration Status'', Some ''Instructional Format'',
      Some ''Delivery Mode'', Some ''Meeting Patterns'', Some ''Instructor'', Some ''Start Date'',
      Some ''End Date'']"

section \<open>The Date object\<close>

text \<open>
  The program builds every Date from calendar fields at local midnight and then reads
  calendar fields back, so a Date is modelled by its day number (days since 1970-01-01,
  as \<^verbatim>\<open>Day(t)\<close> of ECMA-262 on the local time value), or \<^verbatim>\<open>None\<close> for an Invalid Date.
  The functions below are the ones of ECMA-262, section "Date objects", with time values
  divided by the milliseconds of a day. Local midnight is taken to exist on every day, as
  it does in America/Vancouver, the zone the generated calendar names.
\<close>

type_synonym date = "int option"

definition DayFromYear :: "int \<Rightarrow> int" where
  "DayFromYear y = 365 * (y - 1970) + (y - 1969) div 4 - (y - 1901) div 100 + (y - 1601) div 400"

definition DaysInYear :: "int \<Rightarrow> int" where
  "DaysInYear y =
     (if y mod 4 \<noteq> 0 then 365 else if y mod 100 \<noteq> 0 then 366
      else if y mod 400 \<noteq> 0 then 365 else 366)"

text \<open>Arithmetic facts the termination proofs of the year search need.\<close>

lemma div_succ:
  fixes z n :: int
  assumes "0 < n"
  shows "(z + 1) div n = z div n + (if (z + 1) mod n = 0 then 1 else 0)"
proof (cases "z mod n = n - 1")
  case True
  have "z = n * (z div n) + z mod n" by simp
  with True have "z + 1 = n * (z div n) + n" by linarith
  then have "z + 1 = n * (z div n + 1) + 0" by (simp add: algebra_simps)
  then have "(z + 1) div n = z div n + 1" "(z + 1) mod n = 0"
    using assms by (metis add.right_neutral nonzero_mult_div_cancel_left less_irrefl, metis add.right_neutral mod_mult_self1_is_0)
  then show ?thesis by simp
next
  case False
  have r: "0 \<le> z mod n" "z mod n < n" using assms by simp_all
  with False have b: "0 \<le> z mod n + 1" "z mod n + 1 < n" by simp_all
  have e: "z + 1 = n * (z div n) + (z mod n + 1)"
    using mult_div_mod_eq [of n z] by simp
  have "(z + 1) div n = z div n"
    using int_div_pos_eq [OF e b] .
  moreover have "(z + 1) mod n = z mod n + 1"
    using int_mod_pos_eq [OF e b] .
  ultimately show ?thesis using b r by simp
qed

lemma shift_mod: "(y - k * n) mod n = y mod n" for y :: int
  by (metis mod_mult_self1 add_uminus_conv_diff mult_minus_left)

lemma DayFromYear_step: "DayFromYear (y + 1) = DayFromYear y + DaysInYear y"
proof -
  have a: "(y + 1 - 1969) div 4 = (y - 1969) div 4 + (if y mod 4 = 0 then 1 else 0)"
    using div_succ [of 4 "y - 1969"] shift_mod [of y 492 4] by simp
  have b: "(y + 1 - 1901) div 100 = (y - 1901) div 100 + (if y mod 100 = 0 then 1 else 0)"
    using div_succ [of 100 "y - 1901"] shift_mod [of y 19 100] by simp
  have c: "(y + 1 - 1601) div 400 = (y - 1601) div 400 + (if y mod 400 = 0 then 1 else 0)"
    using div_succ [of 400 "y - 1601"] shift_mod [of y 4 400] by simp
  have d: "y mod 100 = 0 \<Longrightarrow> y mod 4 = 0"
    using mod_mod_cancel [of 4 100 y] by simp
  have e: "y mod 400 = 0 \<Longrightarrow> y mod 100 = 0"
    using mod_mod_cancel [of 100 400 y] by simp
  show ?thesis
    unfolding DayFromYear_def DaysInYear_def a b c using d e by auto
qed

lemma DaysInYear_pos: "0 < DaysInYear y"
  by (simp add: DaysInYear_def)

text \<open>
  \<^verbatim>\<open>YearFromTime(t)\<close> is the largest year \<open>y\<close> with \<open>DayFromYear y \<le> Day(t)\<close>: found by
  a search down and then up from an estimate.
\<close>

function year_down :: "int \<Rightarrow> int \<Rightarrow> int" where
  "year_down y t = (if t < DayFromYear y then year_down (y - 1) t else y)"
  by pat_completeness auto
termination
proof (relation "measure (\<lambda>(y, t). nat (DayFromYear y - t))")
  show "wf (measure (\<lambda>(y, t). nat (DayFromYear y - t)))" by simp
next
  fix y t :: int
  assume "t < DayFromYear y"
  moreover have "DayFromYear (y - 1) < DayFromYear y"
    using DayFromYear_step [of "y - 1"] DaysInYear_pos [of "y - 1"] by simp
  ultimately show "((y - 1, t), (y, t)) \<in> measure (\<lambda>(y, t). nat (DayFromYear y - t))"
    by simp
qed

function year_up :: "int \<Rightarrow> int \<Rightarrow> int" where
  "year_up y t = (if DayFromYear (y + 1) \<le> t then year_up (y + 1) t else y)"
  by pat_completeness auto
termination
proof (relation "measure (\<lambda>(y, t). nat (t - DayFromYear y))")
  show "wf (measure (\<lambda>(y, t). nat (t - DayFromYear y)))" by simp
next
  fix y t :: int
  assume "DayFromYear (y + 1) \<le> t"
  moreover have "DayFromYear y < DayFromYear (y + 1)"
    using DayFromYear_step [of y] DaysInYear_pos [of y] by simp
  ultimately show "((y + 1, t), (y, t)) \<in> measure (\<lambda>(y, t). nat (t - DayFromYear y))"
    by simp
qed

declare year_down.simps [simp del] year_up.simps [simp del]

definition YearFromTime :: "int \<Rightarrow> int" where
  "YearFromTime t = year_up (year_down (1970 + t div 365) t) t"

definition InLeapYear :: "int \<Rightarrow> int" where
  "InLeapYear t = (if DaysInYear (YearFromTime t) = 366 then 1 else 0)"

definition DayWithinYear :: "int \<Rightarrow> int" where
  "DayWithinYear t = t - DayFromYear (YearFromTime t)"

text \<open>The day within the year on which month \<open>m\<close> (0 to 11) starts; \<open>l\<close> is 1 in a leap year.\<close>

definition month_start :: "int \<Rightarrow> int \<Rightarrow> int" where
  "month_start l m =
     (if m = 0 then 0 else if m = 1 then 31 else if m = 2 then 59 + l
      else if m = 3 then 90 + l else if m = 4 then 120 + l else if m = 5 then 151 + l
      else if m = 6 then 181 + l else if m = 7 then 212 + l else if m = 8 then 243 + l
      else if m = 9 then 273 + l else if m = 10 then 304 + l else 334 + l)"

definition MonthFromTime :: "int \<Rightarrow> int" where
  "MonthFromTime t =
     (let d = DayWithinYear t; l = InLeapYear t in
      if d < 31 then 0 else if d < 59 + l then 1 else if d < 90 + l then 2
      else if d < 120 + l then 3 else if d < 151 + l then 4 else if d < 181 + l then 5
      else if d < 212 + l then 6 else if d < 243 + l then 7 else if d < 273 + l then 8
      else if d < 304 + l then 9 else if d < 334 + l then 10 else 11)"

definition DateFromTime :: "int \<Rightarrow> int" where
  "DateFromTime t = DayWithinYear t - month_start (InLeapYear t) (MonthFromTime t) + 1"

definition WeekDay :: "int \<Rightarrow> int" where
  "WeekDay t = (t + 4) mod 7"

definition MakeDay :: "int \<Rightarrow> int \<Rightarrow> int \<Rightarrow> int" where
  "MakeDay year month dt =
     (let ym = year + month div 12; mn = month mod 12
      in DayFromYear ym + month_start (if DaysInYear ym = 366 then 1 else 0) mn + dt - 1)"

text \<open>\<^verbatim>\<open>TimeClip\<close>: a Date holds at most 100,000,000 days on either side of the epoch.\<close>

definition TimeClip :: "int \<Rightarrow> date" where
  "TimeClip t = (if \<bar>t\<bar> \<le> 100000000 then Some t else None)"

text \<open>
  \<^verbatim>\<open>new Date(year, month, day)\<close>: a \<^verbatim>\<open>NaN\<close> argument gives an Invalid Date, and a year
  from 0 to 99 means 1900 + year.
\<close>

definition Date_new :: "int option \<Rightarrow> int option \<Rightarrow> int option \<Rightarrow> date" where
  "Date_new year month day =
     (case (year, month, day) of
        (Some y, Some m, Some d) \<Rightarrow>
          TimeClip (MakeDay (if 0 \<le> y \<and> y \<le> 99 then 1900 + y else y) m d)
      | _ \<Rightarrow> None)"

definition getDay :: "date \<Rightarrow> int option" where
  "getDay d = map_option WeekDay d"

definition getFullYear :: "date \<Rightarrow> int option" where
  "getFullYear d = map_option YearFromTime d"

definition getMonth :: "date \<Rightarrow> int option" where
  "getMonth d = map_option MonthFromTime d"

definition getDate :: "date \<Rightarrow> int option" where
  "getDate d = map_option DateFromTime d"

text \<open>\<^verbatim>\<open>d.setDate(n)\<close>, returning the updated Date.\<close>

definition setDate :: "date \<Rightarrow> int option \<Rightarrow> date" where
  "setDate d n =
     (case (d, n) of
        (Some t, Some dt) \<Rightarrow> TimeClip (MakeDay (YearFromTime t) (MonthFromTime t) dt)
      | _ \<Rightarrow> None)"

section \<open>calendar.js\<close>

subsection \<open>Courses, meetings and events\<close>

text \<open>
  The objects the parser builds. A property that may be absent (\<^verbatim>\<open>undefined\<close> or
  \<^verbatim>\<open>null\<close>) and that the code only tests, or prints behind a test, is an option;
  \<^verbatim>\<open>name\<close> and \<^verbatim>\<open>startDate\<close>, which are printed untested, are of type
  \<^typ>\<open>js_text\<close>; \<^verbatim>\<open>code\<close> is always a text, since \<^verbatim>\<open>generateUID\<close> calls a method on
  it.
\<close>

record meeting =
  startDate :: js_text
  endDate :: "string option"
  days :: "string list option"
  startTime :: "string option"
  endTime :: "string option"
  location :: "string option"

record studentInfo =
  student_name :: string
  student_id :: string
  student_term :: string

record course =
  student :: "studentInfo option"
  code :: string
  name :: js_text
  course_section :: "string option"
  credits :: "string option"
  instructor :: "string option"
  format :: "string option"
  delivery :: "string option"
  status :: "string option"
  meetings :: "meeting list option"
  course_startDate :: "string option"
  course_endDate :: "string option"

record event =
  uid :: string
  summary :: string
  description :: string
  event_location :: "string option"
  dtstart :: "string option"
  dtend :: "string option"
  rrule :: "string option"
  categories :: string
  event_status :: string

text \<open>\<^verbatim>\<open>s.replace(/c/g, r)\<close> for a one-character pattern.\<close>

definition replace_all :: "char \<Rightarrow> string \<Rightarrow> string \<Rightarrow> string" where
  "replace_all c r s = concat (map (\<lambda>x. if x = c then r else [x]) s)"

definition is_alnum :: "char \<Rightarrow> bool" where
  "is_alnum c =
     (c \<in> set ''abcdefghijklmnopqrstuvwxyz'' \<or> c \<in> set ''ABCDEFGHIJKLMNOPQRSTUVWXYZ'' \<or> is_digit c)"

subsection \<open>buildDescription, escapeText, buildRRule, generateUID\<close>

definition buildDescription :: "course \<Rightarrow> string" where
  "buildDescription c =
     join [CHR 0x5C, CHR ''n'']
       ((if truthy (known (name c)) then [''Course: '' @ code c @ '' - '' @ template (name c)] else []) @
        (if truthy (course_section c) then [''Section: '' @ the (course_section c)] else []) @
        (if truthy (instructor c) then [''Instructor: '' @ the (instructor c)] else []) @
        (if truthy (credits c) then [''Credits: '' @ the (credits c)] else []) @
        (if truthy (format c) then [''Format: '' @ the (format c)] else []) @
        (if truthy (delivery c) then [''Delivery: '' @ the (delivery c)] else []) @
        (if truthy (status c) then [''Status: '' @ the (status c)] else []))"

definition escapeText :: "string option \<Rightarrow> string" where
  "escapeText text =
     (if \<not> truthy text then []
      else replace_all (CHR 0x0D) []
             (replace_all (CHR 0x0A) [CHR 0x5C, CHR ''n'']
               (replace_all CHR '','' [CHR 0x5C, CHR '','']
                 (replace_all CHR '';'' [CHR 0x5C, CHR '';'']
                   (replace_all (CHR 0x5C) [CHR 0x5C, CHR 0x5C] (the text))))))"

definition buildRRule :: "meeting \<Rightarrow> string option" where
  "buildRRule m =
     (case (endDate m, days m) of
        (Some e, Some ds) \<Rightarrow>
          if e = [] \<or> ds = [] then None
          else Some (''FREQ=WEEKLY;UNTIL='' @ replace_all CHR ''-'' [] e @ ''T235959'' @
                     '';BYDAY='' @ join '','' ds)
      | _ \<Rightarrow> None)"

text \<open>\<^verbatim>\<open>timestamp\<close> is the value \<^verbatim>\<open>Date.now()\<close> returned; \<^verbatim>\<open>days\<close> is the meeting's array.\<close>

definition generateUID :: "int \<Rightarrow> course \<Rightarrow> meeting \<Rightarrow> string list \<Rightarrow> string" where
  "generateUID timestamp c m ds =
     (let courseId = filter (\<lambda>x. \<not> is_space x) (code c);
          meetingId = filter is_alnum (template (startDate m) @ ''-'' @ join [] ds)
      in courseId @ ''-'' @ meetingId @ ''-'' @ int_toString timestamp @ ''@workday-cal'')"

subsection \<open>getFirstOccurrence\<close>

text \<open>
  The table of day numbers, read by its seven keys. A code that names a property every
  object inherits (such as \<^verbatim>\<open>constructor\<close>) would yield that property and not
  \<^verbatim>\<open>undefined\<close>; day arrays with such names are outside this model. They change the date
  in the result only, never whether there is a result.
\<close>

definition dayMap :: "string \<Rightarrow> int option" where
  "dayMap = map_of [(''MO'', 1), (''TU'', 2), (''WE'', 3), (''TH'', 4), (''FR'', 5), (''SA'', 6), (''SU'', 0)]"

text \<open>
  \<^verbatim>\<open>days.map(d => dayMap[d]).sort((a, b) => a - b)\<close>: the numbers in ascending order, and
  after them the \<^verbatim>\<open>undefined\<close> entries of the codes the table does not hold.
\<close>

definition targetDays :: "string list \<Rightarrow> int option list" where
  "targetDays ds =
     map Some (sort (List.map_filter dayMap ds)) @ filter (\<lambda>v. v = None) (map dayMap ds)"

text \<open>
  The loop over \<^verbatim>\<open>targetDays\<close>, with \<^verbatim>\<open>daysToAdd\<close> as accumulator; \<^verbatim>\<open>NaN\<close> is \<^verbatim>\<open>None\<close>,
  and every comparison with it is false. The operands of \<^verbatim>\<open>%\<close> are never negative.
\<close>

fun daysToAdd_loop :: "int option \<Rightarrow> int option list \<Rightarrow> int option \<Rightarrow> int option" where
  "daysToAdd_loop startDayOfWeek [] daysToAdd = daysToAdd"
| "daysToAdd_loop startDayOfWeek (targetDay # rest) daysToAdd =
     (let diff = (case (targetDay, startDayOfWeek) of
                    (Some t, Some s) \<Rightarrow> Some ((t - s + 7) mod 7)
                  | _ \<Rightarrow> None)
      in if diff = Some 0 \<or> (startDayOfWeek \<noteq> None \<and> startDayOfWeek = targetDay) then Some 0
         else if daysToAdd = Some 0 \<or>
                 (case (diff, daysToAdd) of (Some a, Some b) \<Rightarrow> a < b | _ \<Rightarrow> False)
              then daysToAdd_loop startDayOfWeek rest diff
              else daysToAdd_loop startDayOfWeek rest daysToAdd)"

definition formatDate :: "date \<Rightarrow> string" where
  "formatDate d =
     num_toString (getFullYear d) @
     padStart 2 CHR ''0'' (num_toString (map_option (\<lambda>m. m + 1) (getMonth d))) @
     padStart 2 CHR ''0'' (num_toString (getDate d))"

definition getFirstOccurrence :: "string option \<Rightarrow> string list option \<Rightarrow> string option \<Rightarrow> string option" where
  "getFirstOccurrence sd dso tm =
     (case (sd, dso, tm) of
        (Some start, Some ds, Some time) \<Rightarrow>
          if start = [] \<or> ds = [] \<or> time = [] then None
          else
            (let fields = map Number (str_split CHR ''-'' start);
                 year = (case index fields 0 of Some v \<Rightarrow> v | None \<Rightarrow> None);
                 month = (case index fields 1 of Some v \<Rightarrow> v | None \<Rightarrow> None);
                 day = (case index fields 2 of Some v \<Rightarrow> v | None \<Rightarrow> None);
                 baseDate = Date_new year (map_option (\<lambda>m. m - 1) month) day;
                 startDayOfWeek = getDay baseDate;
                 daysToAdd = daysToAdd_loop startDayOfWeek (targetDays ds) (Some 0);
                 firstDate =
                   setDate baseDate
                     (case (getDate baseDate, daysToAdd) of
                        (Some a, Some b) \<Rightarrow> Some (a + b)
                      | _ \<Rightarrow> None);
                 dateStr = formatDate firstDate;
                 timeStr = remove1 CHR '':'' time
             in Some (dateStr @ ''T'' @ timeStr @ ''00''))
      | _ \<Rightarrow> None)"

subsection \<open>createRecurringEvents\<close>

text \<open>
  The clock is a sequence of readings: \<open>clock k\<close> is the number of milliseconds the
  \<open>k\<close>-th reading of the current time returns, through \<^verbatim>\<open>Date.now()\<close> or
  \<^verbatim>\<open>new Date()\<close>. Every function that reads the clock takes the number of readings made
  so far and returns the new number.
\<close>

definition createRecurringEvents ::
  "(nat \<Rightarrow> int) \<Rightarrow> nat \<Rightarrow> course \<Rightarrow> meeting \<Rightarrow> event list \<times> nat" where
  "createRecurringEvents clock k c m =
     (case days m of
        None \<Rightarrow> ([], k)
      | Some ds \<Rightarrow>
          if ds = [] then ([], k)
          else
            ([\<lparr>uid = generateUID (clock k) c m ds,
               summary = code c @ '' - '' @ template (name c),
               description = buildDescription c,
               event_location = location m,
               dtstart = getFirstOccurrence (known (startDate m)) (days m) (startTime m),
               dtend = getFirstOccurrence (known (startDate m)) (days m) (endTime m),
               rrule = buildRRule m,
               categories = (if truthy (format c) then the (format c) else ''Lecture''),
               event_status = ''CONFIRMED''\<rparr>], Suc k))"

subsection \<open>buildICSContent\<close>

text \<open>\<^verbatim>\<open>getCurrentTimestamp\<close> on a reading of the clock, in UTC.\<close>

definition getCurrentTimestamp :: "int \<Rightarrow> string" where
  "getCurrentTimestamp now =
     (let t = now div 86400000;
          two = (\<lambda>v. padStart 2 CHR ''0'' (int_toString v))
      in int_toString (YearFromTime t) @ two (MonthFromTime t + 1) @ two (DateFromTime t) @ ''T'' @
         two (now div 3600000 mod 24) @ two (now div 60000 mod 60) @
         two (now div 1000 mod 60) @ ''Z'')"

definition header_lines :: "string list" where
  "header_lines =
     [''BEGIN:VCALENDAR'', ''VERSION:2.0'', ''PRODID:-//UBC Workday Calendar Converter//EN'',
      ''CALSCALE:GREGORIAN'', ''METHOD:PUBLISH'', ''X-WR-CALNAME:UBC Course Schedule'',
      ''X-WR-CALDESC:Course schedule imported from UBC Workday'',
      ''X-WR-TIMEZONE:America/Vancouver'',
      ''BEGIN:VTIMEZONE'', ''TZID:America/Vancouver'', ''BEGIN:DAYLIGHT'', ''TZOFFSETFROM:-0800'',
      ''TZOFFSETTO:-0700'', ''TZNAME:PDT'', ''DTSTART:20250309T020000'',
      ''RRULE:FREQ=YEARLY;BYMONTH=3;BYDAY=2SU'', ''END:DAYLIGHT'', ''BEGIN:STANDARD'',
      ''TZOFFSETFROM:-0700'', ''TZOFFSETTO:-0800'', ''TZNAME:PST'', ''DTSTART:20251102T020000'',
      ''RRULE:FREQ=YEARLY;BYMONTH=11;BYDAY=1SU'', ''END:STANDARD'', ''END:VTIMEZONE'']"

text \<open>The lines one event adds; none when \<^verbatim>\<open>dtstart\<close> or \<^verbatim>\<open>dtend\<close> is missing.\<close>

definition event_lines :: "(nat \<Rightarrow> int) \<Rightarrow> nat \<Rightarrow> event \<Rightarrow> string list \<times> nat" where
  "event_lines clock k e =
     (if \<not> truthy (dtstart e) \<or> \<not> truthy (dtend e) then ([], k)
      else
        ([''BEGIN:VEVENT'',
          ''UID:'' @ uid e,
          ''DTSTAMP:'' @ getCurrentTimestamp (clock k),
          ''DTSTART;TZID=America/Vancouver:'' @ the (dtstart e),
          ''DTEND;TZID=America/Vancouver:'' @ the (dtend e)] @
         (if truthy (rrule e) then [''RRULE:'' @ the (rrule e)] else []) @
         [''SUMMARY:'' @ escapeText (Some (summary e))] @
         (if description e \<noteq> [] then [''DESCRIPTION:'' @ escapeText (Some (description e))] else []) @
         (if truthy (event_location e) then [''LOCATION:'' @ escapeText (event_location e)] else []) @
         (if categories e \<noteq> [] then [''CATEGORIES:'' @ categories e] else []) @
         [''STATUS:'' @ (if event_status e \<noteq> [] then event_status e else ''CONFIRMED''),
          ''END:VEVENT''], Suc k))"

fun events_loop :: "(nat \<Rightarrow> int) \<Rightarrow> event list \<Rightarrow> string list \<times> nat \<Rightarrow> string list \<times> nat" where
  "events_loop clock [] st = st"
| "events_loop clock (e # es) (lines, k) =
     (case event_lines clock k e of (ls, k') \<Rightarrow> events_loop clock es (lines @ ls, k'))"

text \<open>The array \<^verbatim>\<open>lines\<close> of \<^verbatim>\<open>buildICSContent\<close>, and its text joined with CRLF.\<close>

definition buildICSLines :: "(nat \<Rightarrow> int) \<Rightarrow> nat \<Rightarrow> event list \<Rightarrow> string list" where
  "buildICSLines clock k events =
     fst (events_loop clock events (header_lines, k)) @ [''END:VCALENDAR'']"

definition buildICSContent :: "(nat \<Rightarrow> int) \<Rightarrow> nat \<Rightarrow> event list \<Rightarrow> string" where
  "buildICSContent clock k events = join [CHR 0x0D, CHR 0x0A] (buildICSLines clock k events)"

subsection \<open>generateICS\<close>

fun meetings_loop ::
  "(nat \<Rightarrow> int) \<Rightarrow> course \<Rightarrow> meeting list \<Rightarrow> event list \<times> nat \<Rightarrow> event list \<times> nat" where
  "meetings_loop clock c [] st = st"
| "meetings_loop clock c (m # ms) (events, k) =
     (case createRecurringEvents clock k c m of
        (es, k') \<Rightarrow> meetings_loop clock c ms (events @ es, k'))"

fun courses_loop ::
  "(nat \<Rightarrow> int) \<Rightarrow> course list \<Rightarrow> event list \<times> nat \<Rightarrow> event list \<times> nat" where
  "courses_loop clock [] st = st"
| "courses_loop clock (c # cs) st =
     courses_loop clock cs
       (case meetings c of
          None \<Rightarrow> st
        | Some ms \<Rightarrow> if length ms > 0 then meetings_loop clock c ms st else st)"

text \<open>The events \<^verbatim>\<open>generateICS\<close> collects, the lines it builds from them, and its result.\<close>

definition generateICS_events :: "(nat \<Rightarrow> int) \<Rightarrow> course list \<Rightarrow> event list \<times> nat" where
  "generateICS_events clock courses = courses_loop clock courses ([], 0)"

definition generateICS_lines :: "(nat \<Rightarrow> int) \<Rightarrow> course list \<Rightarrow> string list" where
  "generateICS_lines clock courses =
     (case generateICS_events clock courses of (events, k) \<Rightarrow> buildICSLines clock k events)"

definition generateICS :: "(nat \<Rightarrow> int) \<Rightarrow> course list \<Rightarrow> string" where
  "generateICS clock courses =
     (case generateICS_events clock courses of (events, k) \<Rightarrow> buildICSContent clock k events)"

subsection \<open>Test data: the courses of the test suite\<close>

definition test_meeting :: meeting where
  "test_meeting =
     \<lparr>startDate = Text ''2025-09-02'', endDate = Some ''2025-12-04'', days = Some [''MO'', ''WE''],
      startTime = Some ''09:00'', endTime = Some ''10:00'', location = Some ''Test Location''\<rparr>"

definition test_course :: course where
  "test_course =
     \<lparr>student = None, code = ''TEST 101'', name = Text ''Test Course'', course_section = None,
      credits = Some ''3'', instructor = Some ''Test Instructor'', format = None, delivery = None,
      status = None, meetings = Some [test_meeting], course_startDate = None,
      course_endDate = None\<rparr>"

subsection \<open>Notions used to state the serializer's properties\<close>

text \<open>All meetings of a list of courses, in order.\<close>

definition all_meetings :: "course list \<Rightarrow> meeting list" where
  "all_meetings cs = concat (map (\<lambda>c. case meetings c of None \<Rightarrow> [] | Some ms \<Rightarrow> ms) cs)"

text \<open>A meeting with a non-empty day array.\<close>

definition has_days :: "meeting \<Rightarrow> bool" where
  "has_days m = (case days m of None \<Rightarrow> False | Some ds \<Rightarrow> ds \<noteq> [])"

text \<open>
  The meetings the specification counts: a non-empty day set and an end date. And the
  meetings the code emits an event for: a non-empty day set, a start date, a start time
  and an end time.
\<close>

definition counted_by_spec :: "meeting \<Rightarrow> bool" where
  "counted_by_spec m = (has_days m \<and> truthy (endDate m))"

definition meeting_emits :: "meeting \<Rightarrow> bool" where
  "meeting_emits m =
     (has_days m \<and> truthy (known (startDate m)) \<and> truthy (startTime m) \<and> truthy (endTime m))"

definition event_emitted :: "event \<Rightarrow> bool" where
  "event_emitted e = (truthy (dtstart e) \<and> truthy (dtend e))"

text \<open>
  The text \<^verbatim>\<open>generateICS\<close> returns, read as an iCalendar reader does: it is cut into lines
  at every CRLF.
\<close>

fun text_lines :: "string \<Rightarrow> string list" where
  "text_lines [] = [[]]"
| "text_lines [c] = [[c]]"
| "text_lines (c # d # s) =
     (if c = CHR 0x0D \<and> d = CHR 0x0A then [] # text_lines s
      else (case text_lines (d # s) of
              l # ls \<Rightarrow> (c # l) # ls
            | [] \<Rightarrow> [[c]]))"

text \<open>
  The \<^verbatim>\<open>VEVENT\<close> blocks of a list of lines: the lines between a \<^verbatim>\<open>BEGIN:VEVENT\<close> line and
  the next \<^verbatim>\<open>END:VEVENT\<close> line, block by block. The first argument is the block being read,
  if any. A block has a recurrence rule when one of its lines starts with \<^verbatim>\<open>RRULE:\<close>.
\<close>

fun vevent_blocks :: "string list option \<Rightarrow> string list \<Rightarrow> string list list" where
  "vevent_blocks cur [] = []"
| "vevent_blocks None (l # ls) =
     (if l = ''BEGIN:VEVENT'' then vevent_blocks (Some []) ls else vevent_blocks None ls)"
| "vevent_blocks (Some b) (l # ls) =
     (if l = ''END:VEVENT'' then b # vevent_blocks None ls else vevent_blocks (Some (b @ [l])) ls)"

definition has_rrule :: "string list \<Rightarrow> bool" where
  "has_rrule b = list_ex (\<lambda>l. starts_with l ''RRULE:'') b"

text \<open>
  The text holds the line \<open>l\<close>, between two CRLF.
\<close>

definition text_has_line :: "string \<Rightarrow> string \<Rightarrow> bool" where
  "text_has_line t l = str_includes t ([CHR 0x0D, CHR 0x0A] @ l @ [CHR 0x0D, CHR 0x0A])"

text \<open>
  \<^verbatim>\<open>generateICS\<close> writes the line \<open>l\<close>: it puts it on its array of lines, and the text it
  returns holds it between two CRLF.
\<close>

definition writes_line :: "(nat \<Rightarrow> int) \<Rightarrow> course list \<Rightarrow> string \<Rightarrow> bool" where
  "writes_line clock courses l =
     (l \<in> set (generateICS_lines clock courses) \<and> text_has_line (generateICS clock courses) l)"

text \<open>
  A text without a carriage return. The serializer writes the format, the two times, the
  end date and the day codes as they are, so a CRLF inside one of them would end a line of
  the output in the middle of a value; the courses below are free of that.
\<close>

definition unbroken :: "string \<Rightarrow> bool" where
  "unbroken s = (CHR 0x0D \<notin> set s)"

definition unbroken_option :: "string option \<Rightarrow> bool" where
  "unbroken_option v = (case v of None \<Rightarrow> True | Some s \<Rightarrow> unbroken s)"

definition unbroken_meeting :: "meeting \<Rightarrow> bool" where
  "unbroken_meeting m =
     (unbroken_option (startTime m) \<and> unbroken_option (endTime m) \<and> unbroken_option (endDate m) \<and>
      (case days m of None \<Rightarrow> True | Some ds \<Rightarrow> list_all unbroken ds))"

definition unbroken_event :: "event \<Rightarrow> bool" where
  "unbroken_event e =
     (unbroken (uid e) \<and> unbroken_option (dtstart e) \<and> unbroken_option (dtend e) \<and>
      unbroken_option (rrule e) \<and> unbroken (categories e) \<and> unbroken (event_status e))"

definition unbroken_course :: "course \<Rightarrow> bool" where
  "unbroken_course c =
     (unbroken_option (format c) \<and>
      (case meetings c of None \<Rightarrow> True | Some ms \<Rightarrow> list_all unbroken_meeting ms))"

text \<open>
  The escaping of a text value in RFC 5545 (section 3.3.11), character by character: a
  backslash, a semicolon and a comma get a backslash in front, and a line feed becomes a
  backslash and the letter n. A carriage return is left out.
\<close>

definition escape_char :: "char \<Rightarrow> string" where
  "escape_char x =
     (if x = CHR 0x5C then [CHR 0x5C, CHR 0x5C]
      else if x = CHR '';'' then [CHR 0x5C, CHR '';'']
      else if x = CHR '','' then [CHR 0x5C, CHR '','']
      else if x = CHR 0x0A then [CHR 0x5C, CHR ''n'']
      else if x = CHR 0x0D then []
      else [x])"

definition rfc_escape :: "string \<Rightarrow> string" where
  "rfc_escape s = concat (map escape_char s)"

subsection \<open>Test data: a meeting without an end date, and two meetings on the same days\<close>

definition open_ended_course :: course where
  "open_ended_course = test_course\<lparr>meetings := Some [test_meeting\<lparr>endDate := None\<rparr>]\<rparr>"

definition lecture_and_lab :: course where
  "lecture_and_lab =
     test_course
       \<lparr>code := ''CPSC 110'', name := Text ''Computation'',
        meetings :=
          Some [\<lparr>startDate = Text ''2025-09-02'', endDate = Some ''2025-12-04'',
                  days = Some [''TU'', ''TH''], startTime = Some ''09:30'', endTime = Some ''11:00'',
                  location = Some ''DMP 310''\<rparr>,
                \<lparr>startDate = Text ''2025-09-02'', endDate = Some ''2025-12-04'',
                  days = Some [''TU'', ''TH''], startTime = Some ''14:00'', endTime = Some ''15:00'',
                  location = Some ''ICCS 008''\<rparr>]\<rparr>"

text \<open>
  A course with commas and semicolons in its name, its format and its location, and a
  course whose format holds a CRLF.
\<close>

definition comma_course :: course where
  "comma_course =
     test_course
       \<lparr>name := Text ''Sets, Logic; Proofs'', format := Some ''Lecture, Seminar; Lab'',
        meetings := Some [test_meeting\<lparr>location := Some ''Hall 2, West Wing; Room 5''\<rparr>]\<rparr>"

definition broken_course :: course where
  "broken_course =
     test_course\<lparr>format := Some (''Lab'' @ [CHR 0x0D, CHR 0x0A] @ ''BEGIN:VEVENT'')\<rparr>"

text \<open>A clock that does not advance between its readings: they fall in one millisecond.\<close>

definition still_clock :: "nat \<Rightarrow> int" where
  "still_clock k = 1762000000123"

section \<open>Term classification: app.js and calendar-view.js\<close>

text \<open>
  \<^verbatim>\<open>parseInt(s)\<close> without a radix: leading white space and a sign are skipped, a
  \<^verbatim>\<open>0x\<close> prefix selects base 16, and the longest run of digits is read; \<^verbatim>\<open>NaN\<close> when
  there is none, and for \<^verbatim>\<open>undefined\<close>.
\<close>

definition hex_digit :: "char \<Rightarrow> nat option" where
  "hex_digit c = map_of (zip ''0123456789abcdef'' [0 ..< 16]) (lower_char c)"

fun hex_value :: "nat \<Rightarrow> string \<Rightarrow> nat" where
  "hex_value acc [] = acc"
| "hex_value acc (c # cs) = hex_value (16 * acc + (case hex_digit c of Some v \<Rightarrow> v | None \<Rightarrow> 0)) cs"

definition parseInt :: "string option \<Rightarrow> int option" where
  "parseInt v =
     (case v of
        None \<Rightarrow> None
      | Some s \<Rightarrow>
          (let s1 = dropWhile is_space s;
               negative = starts_with s1 ''-'';
               s2 = (if starts_with s1 ''-'' \<or> starts_with s1 ''+'' then tl s1 else s1);
               sign = (\<lambda>n. if negative then - int n else int n)
           in if starts_with s2 ''0x'' \<or> starts_with s2 ''0X''
              then (let h = takeWhile (\<lambda>c. hex_digit c \<noteq> None) (drop 2 s2)
                    in if h = [] then None else Some (sign (hex_value 0 h)))
              else (let d = takeWhile is_digit s2
                    in if d = [] then None else Some (sign (dec_value 0 d)))))"

text \<open>\<^verbatim>\<open>parseInt(date.split('-')[1])\<close>.\<close>

definition month_number :: "string \<Rightarrow> int option" where
  "month_number d = parseInt (index (str_split CHR ''-'' d) 1)"

text \<open>Comparisons of a number that may be \<^verbatim>\<open>NaN\<close> with a constant: false on \<^verbatim>\<open>NaN\<close>.\<close>

definition num_ge :: "int option \<Rightarrow> int \<Rightarrow> bool" where
  "num_ge v n = (case v of None \<Rightarrow> False | Some x \<Rightarrow> n \<le> x)"

definition num_le :: "int option \<Rightarrow> int \<Rightarrow> bool" where
  "num_le v n = (case v of None \<Rightarrow> False | Some x \<Rightarrow> x \<le> n)"

text \<open>
  The chain of tests on the start and end month in \<^verbatim>\<open>determineTerm\<close> of app.js; the same
  chain stands there twice, for the course's dates and for the first meeting's.
  \<^verbatim>\<open>None\<close> when no test holds and control falls through.
\<close>

definition month_chain :: "int option \<Rightarrow> int option \<Rightarrow> string option" where
  "month_chain startMonth endMonth =
     (if num_ge startMonth 9 \<and> num_ge endMonth 3 \<and> num_le endMonth 4 then Some ''Winter Full Year''
      else if num_ge startMonth 9 \<and> num_le endMonth 12 then Some ''Winter Term 1''
      else if num_ge startMonth 1 \<and> num_le startMonth 4 \<and> num_le endMonth 4 then Some ''Winter Term 2''
      else if num_ge startMonth 5 \<and> num_le startMonth 6 \<and> num_le endMonth 6 then Some ''Summer Term 1''
      else if num_ge startMonth 7 \<and> num_le startMonth 8 then Some ''Summer Term 2''
      else if num_ge startMonth 5 \<and> num_ge endMonth 7 then Some ''Summer Full Term''
      else None)"

text \<open>\<^verbatim>\<open>determineTerm\<close> of app.js (the course list).\<close>

definition determineTerm :: "course \<Rightarrow> string" where
  "determineTerm c =
     (let by_text =
            (case student c of
               None \<Rightarrow> None
             | Some st \<Rightarrow>
                 if student_term st = [] then None
                 else
                   (let termInfo = toLowerCase (student_term st) in
                    if str_includes termInfo ''full year'' \<or> str_includes termInfo ''year long''
                      then Some ''Winter Full Year''
                    else if str_includes termInfo ''winter'' \<and> str_includes termInfo ''term 1''
                      then Some ''Winter Term 1''
                    else if str_includes termInfo ''winter'' \<and> str_includes termInfo ''term 2''
                      then Some ''Winter Term 2''
                    else if str_includes termInfo ''summer'' \<and> str_includes termInfo ''term 1''
                      then Some ''Summer Term 1''
                    else if str_includes termInfo ''summer'' \<and> str_includes termInfo ''term 2''
                      then Some ''Summer Term 2''
                    else if str_includes termInfo ''term 1'' then Some ''Winter Term 1''
                    else if str_includes termInfo ''term 2'' then Some ''Winter Term 2''
                    else None));
          by_dates =
            (if truthy (course_startDate c) \<and> truthy (course_endDate c)
             then month_chain (month_number (the (course_startDate c)))
                    (month_number (the (course_endDate c)))
             else None);
          by_meeting =
            (case meetings c of
               None \<Rightarrow> None
             | Some [] \<Rightarrow> None
             | Some (firstMeeting # _) \<Rightarrow>
                 if truthy (known (startDate firstMeeting)) \<and> truthy (endDate firstMeeting)
                 then month_chain (month_number (the (known (startDate firstMeeting))))
                        (month_number (the (endDate firstMeeting)))
                 else None)
      in case by_text of
           Some l \<Rightarrow> l
         | None \<Rightarrow>
             (case by_dates of
                Some l \<Rightarrow> l
              | None \<Rightarrow> (case by_meeting of Some l \<Rightarrow> l | None \<Rightarrow> ''Other'')))"

text \<open>\<^verbatim>\<open>determineTerm\<close> of calendar-view.js (the weekly grid).\<close>

definition view_determineTerm :: "course \<Rightarrow> string" where
  "view_determineTerm c =
     (let by_text =
            (case student c of
               None \<Rightarrow> None
             | Some st \<Rightarrow>
                 if student_term st = [] then None
                 else
                   (let termInfo = toLowerCase (student_term st) in
                    if str_includes termInfo ''winter'' \<and> str_includes termInfo ''term 1''
                      then Some ''Winter Term 1''
                    else if str_includes termInfo ''winter'' \<and> str_includes termInfo ''term 2''
                      then Some ''Winter Term 2''
                    else if str_includes termInfo ''summer'' \<and> str_includes termInfo ''term 1''
                      then Some ''Summer Term 1''
                    else if str_includes termInfo ''summer'' \<and> str_includes termInfo ''term 2''
                      then Some ''Summer Term 2''
                    else None));
          by_dates =
            (if truthy (course_startDate c) \<and> truthy (course_endDate c)
             then (let startMonth = month_number (the (course_startDate c));
                       endMonth = month_number (the (course_endDate c))
                   in if num_ge startMonth 9 \<and> num_ge endMonth 3 \<and> num_le endMonth 4
                        then Some ''Winter Full Year''
                      else if num_ge startMonth 9 \<and> num_le endMonth 12 then Some ''Winter Term 1''
                      else if num_ge startMonth 1 \<and> num_le startMonth 4 \<and> num_le endMonth 4
                        then Some ''Winter Term 2''
                      else if num_ge startMonth 5 \<and> num_le startMonth 6 \<and> num_le endMonth 6
                        then Some ''Summer Term 1''
                      else if num_ge startMonth 7 \<and> num_le startMonth 8 then Some ''Summer Term 2''
                      else if num_ge startMonth 5 \<and> num_ge endMonth 7 then Some ''Summer Full Term''
                      else None)
             else None);
          by_meeting =
            (case meetings c of
               None \<Rightarrow> None
             | Some [] \<Rightarrow> None
             | Some (firstMeeting # _) \<Rightarrow>
                 if truthy (known (startDate firstMeeting))
                 then (let startMonth = month_number (the (known (startDate firstMeeting)))
                       in if num_ge startMonth 9 then Some ''Winter Term 1''
                          else if num_le startMonth 4 then Some ''Winter Term 2''
                          else if num_ge startMonth 5 \<and> num_le startMonth 6 then Some ''Summer Term 1''
                          else if num_ge startMonth 7 \<and> num_le startMonth 8 then Some ''Summer Term 2''
                          else None)
                 else None)
      in case by_text of
           Some l \<Rightarrow> l
         | None \<Rightarrow>
             (case by_dates of
                Some l \<Rightarrow> l
              | None \<Rightarrow> (case by_meeting of Some l \<Rightarrow> l | None \<Rightarrow> ''Other'')))"

subsection \<open>The cascade in the specification's words\<close>

text \<open>
  Step 1 of the specification finds a label in the student-level term text when one of its
  patterns occurs; step 2 is the cascade over the month numbers, first match first.
\<close>

definition step1_matches :: "string \<Rightarrow> bool" where
  "step1_matches t =
     (let s = toLowerCase t in
      str_includes s ''full year'' \<or> str_includes s ''year long'' \<or>
      str_includes s ''term 1'' \<or> str_includes s ''term 2'')"

definition no_step1_match :: "course \<Rightarrow> bool" where
  "no_step1_match c = (case student c of None \<Rightarrow> True | Some st \<Rightarrow> \<not> step1_matches (student_term st))"

definition spec_cascade :: "int \<Rightarrow> int \<Rightarrow> string option" where
  "spec_cascade s e =
     (if 9 \<le> s \<and> e \<in> {3..4} then Some ''Winter Full Year''
      else if 9 \<le> s \<and> e \<le> 12 then Some ''Winter Term 1''
      else if s \<in> {1..4} \<and> e \<le> 4 then Some ''Winter Term 2''
      else if s \<in> {5..6} \<and> e \<le> 6 then Some ''Summer Term 1''
      else if s \<in> {7..8} then Some ''Summer Term 2''
      else if s \<in> {5..6} \<and> 7 \<le> e then Some ''Summer Full Term''
      else None)"

subsection \<open>Test data: a course dated September to April\<close>

definition full_year_course :: course where
  "full_year_course =
     test_course\<lparr>course_startDate := Some ''2025-09-02'', course_endDate := Some ''2026-04-08''\<rparr>"

subsection \<open>parseDays and parseLocation\<close>

definition parseDays :: "string \<Rightarrow> string list" where
  "parseDays daysStr =
     map snd
       (filter (\<lambda>(full, abbr). str_includes daysStr full)
          [(''Mon'', ''MO''), (''Tue'', ''TU''), (''Wed'', ''WE''), (''Thu'', ''TH''),
           (''Fri'', ''FR''), (''Sat'', ''SA''), (''Sun'', ''SU'')])"

text \<open>\<^verbatim>\<open>s.replace(/Label:\s*/g, rep)\<close> for a non-empty label.\<close>

function replace_label :: "string \<Rightarrow> string \<Rightarrow> string \<Rightarrow> string" where
  "replace_label lab rep s =
     (if lab \<noteq> [] \<and> starts_with s lab
      then rep @ replace_label lab rep (dropWhile is_space (drop (length lab) s))
      else (case s of [] \<Rightarrow> [] | c # cs \<Rightarrow> c # replace_label lab rep cs))"
  by pat_completeness auto
termination
proof (relation "measure (\<lambda>(lab, rep, s). length s)")
  show "wf (measure (\<lambda>(lab, rep, s). length s))" by simp
next
  fix lab rep s :: string
  assume a: "lab \<noteq> [] \<and> starts_with s lab"
  then have "0 < length s" by (cases s; cases lab) auto
  with a have "length (drop (length lab) s) < length s" by (cases lab) simp_all
  moreover have "length (dropWhile is_space (drop (length lab) s)) \<le> length (drop (length lab) s)"
    by (rule length_dropWhile_le)
  ultimately have "length (dropWhile is_space (drop (length lab) s)) < length s"
    by simp
  then show "((lab, rep, dropWhile is_space (drop (length lab) s)), (lab, rep, s))
      \<in> measure (\<lambda>(lab, rep, s). length s)"
    by simp
next
  fix lab rep s :: string and c cs
  assume "s = c # cs"
  then show "((lab, rep, cs), (lab, rep, s)) \<in> measure (\<lambda>(lab, rep, s). length s)" by simp
qed

text \<open>\<^verbatim>\<open>s.replace(/\s+/g, ' ')\<close>.\<close>

function collapse_spaces :: "string \<Rightarrow> string" where
  "collapse_spaces [] = []"
| "collapse_spaces (c # cs) =
     (if is_space c then CHR '' '' # collapse_spaces (dropWhile is_space cs)
      else c # collapse_spaces cs)"
  by pat_completeness auto
termination
proof (relation "measure length")
  show "wf (measure length)" by simp
next
  fix c :: char and cs :: string
  have "length (dropWhile is_space cs) \<le> length cs" by (rule length_dropWhile_le)
  then show "(dropWhile is_space cs, c # cs) \<in> measure length" by simp
next
  fix c :: char and cs :: string
  show "(cs, c # cs) \<in> measure length" by simp
qed

declare replace_label.simps [simp del]

definition parseLocation :: "string \<Rightarrow> string" where
  "parseLocation locationStr =
     (if locationStr = [] then []
      else trim (collapse_spaces
                   (replace_label ''Room:'' ''Room '' (replace_label ''Floor:'' ''Floor '' locationStr))))"

subsection \<open>The regular expressions of parseMeetingPatterns\<close>

text \<open>
  \<^verbatim>\<open>\d{4}-\d{2}-\d{2}\<close> at the start of a text: the token and the rest.
\<close>

definition date_token :: "string \<Rightarrow> (string \<times> string) option" where
  "date_token s =
     (let t = take 10 s in
      if length t = 10 \<and> list_all is_digit (take 4 t) \<and> t ! 4 = CHR ''-'' \<and>
         list_all is_digit (take 2 (drop 5 t)) \<and> t ! 7 = CHR ''-'' \<and> list_all is_digit (drop 8 t)
      then Some (t, drop 10 s) else None)"

text \<open>
  \<^verbatim>\<open>(\d{4}-\d{2}-\d{2})\s*-\s*(\d{4}-\d{2}-\d{2})\<close> at the start of a text: the two groups.
  White space, the dash and the digits exclude one another, so the greedy \<^verbatim>\<open>\s*\<close> never
  gives a character back.
\<close>

definition date_range_at :: "string \<Rightarrow> (string \<times> string) option" where
  "date_range_at s =
     (case date_token s of
        None \<Rightarrow> None
      | Some (d1, r1) \<Rightarrow>
          (case dropWhile is_space r1 of
             [] \<Rightarrow> None
           | c # r2 \<Rightarrow>
               if c \<noteq> CHR ''-'' then None
               else (case date_token (dropWhile is_space r2) of
                       None \<Rightarrow> None
                     | Some (d2, r3) \<Rightarrow> Some (d1, d2))))"

text \<open>\<^verbatim>\<open>s.match(re)\<close> without the global flag: the leftmost position where the expression matches.\<close>

fun date_range_match :: "string \<Rightarrow> (string \<times> string) option" where
  "date_range_match [] = date_range_at []"
| "date_range_match (c # cs) =
     (case date_range_at (c # cs) of Some g \<Rightarrow> Some g | None \<Rightarrow> date_range_match cs)"

text \<open>\<^verbatim>\<open>\d{1,2}:\d{2}\<close> at the start of a text: two hour digits when they are there, else one.\<close>

definition time_token :: "string \<Rightarrow> (string \<times> string) option" where
  "time_token s =
     (if length s \<ge> 5 \<and> is_digit (s ! 0) \<and> is_digit (s ! 1) \<and> s ! 2 = CHR '':'' \<and>
         is_digit (s ! 3) \<and> is_digit (s ! 4)
      then Some (take 5 s, drop 5 s)
      else if length s \<ge> 4 \<and> is_digit (s ! 0) \<and> s ! 1 = CHR '':'' \<and> is_digit (s ! 2) \<and> is_digit (s ! 3)
      then Some (take 4 s, drop 4 s)
      else None)"

text \<open>\<^verbatim>\<open>(a\.m\.|p\.m\.)\<close> at the start of a text.\<close>

definition period_token :: "string \<Rightarrow> (string \<times> string) option" where
  "period_token s =
     (if starts_with s ''a.m.'' \<or> starts_with s ''p.m.'' then Some (take 4 s, drop 4 s) else None)"

text \<open>
  \<^verbatim>\<open>(\d{1,2}:\d{2})\s*(a\.m\.|p\.m\.)\s*-\s*(\d{1,2}:\d{2})\s*(a\.m\.|p\.m\.)\<close> at the start of
  a text: the four groups.
\<close>

definition time_range_at :: "string \<Rightarrow> (string \<times> string \<times> string \<times> string) option" where
  "time_range_at s =
     (case time_token s of
        None \<Rightarrow> None
      | Some (t1, r1) \<Rightarrow>
          (case period_token (dropWhile is_space r1) of
             None \<Rightarrow> None
           | Some (p1, r2) \<Rightarrow>
               (case dropWhile is_space r2 of
                  [] \<Rightarrow> None
                | c # r3 \<Rightarrow>
                    if c \<noteq> CHR ''-'' then None
                    else (case time_token (dropWhile is_space r3) of
                            None \<Rightarrow> None
                          | Some (t2, r4) \<Rightarrow>
                              (case period_token (dropWhile is_space r4) of
                                 None \<Rightarrow> None
                               | Some (p2, r5) \<Rightarrow> Some (t1, p1, t2, p2))))))"

fun time_range_match :: "string \<Rightarrow> (string \<times> string \<times> string \<times> string) option" where
  "time_range_match [] = time_range_at []"
| "time_range_match (c # cs) =
     (case time_range_at (c # cs) of Some g \<Rightarrow> Some g | None \<Rightarrow> time_range_match cs)"

subsection \<open>parseMeetingPatterns\<close>

text \<open>
  One turn of the loop over the lines: the meeting it pushes, if any. An exception of
  \<^verbatim>\<open>convertTo24Hour\<close> would leave the function.
\<close>

definition parse_line :: "string \<Rightarrow> js_error + meeting option" where
  "parse_line line =
     (let parts = map trim (str_split CHR ''|'' line) in
      if length parts \<ge> 3 then
        (let dateRange = parts ! 0;
             dys = parts ! 1;
             timeRange = parts ! 2;
             loc = join '' | '' (drop 3 parts)
         in case (date_range_match dateRange, time_range_match timeRange) of
              (Some (d1, d2), Some (t1, p1, t2, p2)) \<Rightarrow>
                (case convertTo24Hour t1 p1 of
                   Inl err \<Rightarrow> Inl err
                 | Inr st \<Rightarrow>
                     (case convertTo24Hour t2 p2 of
                        Inl err \<Rightarrow> Inl err
                      | Inr et \<Rightarrow>
                          Inr (Some \<lparr>startDate = Text d1, endDate = Some d2,
                                     days = Some (parseDays dys), startTime = Some st,
                                     endTime = Some et, location = Some (parseLocation loc)\<rparr>)))
            | _ \<Rightarrow> Inr None)
      else Inr None)"

fun lines_loop :: "string list \<Rightarrow> meeting list \<Rightarrow> js_error + meeting list" where
  "lines_loop [] ms = Inr ms"
| "lines_loop (line # rest) ms =
     (case parse_line line of
        Inl err \<Rightarrow> Inl err
      | Inr None \<Rightarrow> lines_loop rest ms
      | Inr (Some m) \<Rightarrow> lines_loop rest (ms @ [m]))"

definition parseMeetingPatterns :: "string option \<Rightarrow> js_error + meeting list" where
  "parseMeetingPatterns pattern =
     (if \<not> truthy pattern then Inr []
      else lines_loop (filter (\<lambda>line. trim line \<noteq> []) (str_split (CHR 0x0A) (the pattern))) [])"

subsection \<open>Test data: the meeting patterns of the test suite\<close>




subsection \<open>Notions used to state the property of parseMeetingPatterns\<close>


text \<open>The meeting one line yields, if any.\<close>

definition meeting_of_line :: "string \<Rightarrow> meeting option" where
  "meeting_of_line line = (case parse_line line of Inl err \<Rightarrow> None | Inr r \<Rightarrow> r)"

text \<open>
  A line with at least three fields between pipes, a date range in the first and a time
  range in the third.
\<close>

definition line_qualifies :: "string \<Rightarrow> bool" where
  "line_qualifies line =
     (let parts = map trim (str_split CHR ''|'' line) in
      length parts \<ge> 3 \<and> date_range_match (parts ! 0) \<noteq> None \<and>
      time_range_match (parts ! 2) \<noteq> None)"

subsection \<open>Notions used to state the property of getFirstOccurrence\<close>

text \<open>
  A calendar date: the month from 1 to 12 and the day within the month's length. Its day
  number is the one \<^verbatim>\<open>MakeDay\<close> gives it.
\<close>

definition days_in_month :: "int \<Rightarrow> int \<Rightarrow> int" where
  "days_in_month y m =
     (if m = 2 then (if DaysInYear y = 366 then 29 else 28)
      else if m = 4 \<or> m = 6 \<or> m = 9 \<or> m = 11 then 30 else 31)"

definition valid_date :: "int \<Rightarrow> int \<Rightarrow> int \<Rightarrow> bool" where
  "valid_date y m d = (1 \<le> m \<and> m \<le> 12 \<and> 1 \<le> d \<and> d \<le> days_in_month y m)"

definition day_number :: "int \<Rightarrow> int \<Rightarrow> int \<Rightarrow> int" where
  "day_number y m d = MakeDay y (m - 1) d"

text \<open>The two-letter code of the weekday of a day number.\<close>

definition weekday_codes :: "string list" where
  "weekday_codes = [''SU'', ''MO'', ''TU'', ''WE'', ''TH'', ''FR'', ''SA'']"

definition weekday_code :: "int \<Rightarrow> string" where
  "weekday_code t = weekday_codes ! nat (WeekDay t)"

text \<open>A day number as year, two-digit month and two-digit day.\<close>

definition four_digits :: "nat \<Rightarrow> string" where
  "four_digits n =
     [digit_char (n div 1000 mod 10), digit_char (n div 100 mod 10), digit_char (n div 10 mod 10),
      digit_char (n mod 10)]"

definition date_text :: "int \<Rightarrow> string" where
  "date_text t =
     int_toString (YearFromTime t) @ two_digits (nat (MonthFromTime t + 1)) @
     two_digits (nat (DateFromTime t))"

section \<open>parser.js: rows and the grid\<close>

subsection \<open>The regular expressions of the labels and the course listing\<close>

definition is_upper :: "char \<Rightarrow> bool" where
  "is_upper c = (c \<in> set ''ABCDEFGHIJKLMNOPQRSTUVWXYZ'')"

text \<open>
  \<^verbatim>\<open>\s*(.+)\<close> at the start of a text, the group: the greedy \<^verbatim>\<open>\s*\<close> takes all white
  space and the group runs to the end of the line; when only white space is left, the
  expression gives back characters from the end until one is not a line terminator, and
  the group is that character.
\<close>

definition free_text :: "string \<Rightarrow> string option" where
  "free_text s =
     (let w = takeWhile is_space s; r = dropWhile is_space s in
      if r \<noteq> [] then Some (takeWhile (\<lambda>c. \<not> is_line_terminator c) r)
      else (case filter (\<lambda>c. \<not> is_line_terminator c) (rev w) of
              [] \<Rightarrow> None
            | c # _ \<Rightarrow> Some [c]))"

text \<open>\<^verbatim>\<open>\s*\((\d+)\)\s*-\s*(.+)\<close> at the start of a text: the groups.\<close>

definition after_name :: "string \<Rightarrow> (string \<times> string) option" where
  "after_name s =
     (case dropWhile is_space s of
        [] \<Rightarrow> None
      | c # s2 \<Rightarrow>
          if c \<noteq> CHR ''('' \<or> takeWhile is_digit s2 = [] then None
          else (case dropWhile is_digit s2 of
                  [] \<Rightarrow> None
                | e # s4 \<Rightarrow>
                    if e \<noteq> CHR '')'' then None
                    else (case dropWhile is_space s4 of
                            [] \<Rightarrow> None
                          | f # s5 \<Rightarrow>
                              if f \<noteq> CHR ''-'' then None
                              else (case free_text s5 of
                                      None \<Rightarrow> None
                                    | Some g \<Rightarrow> Some (takeWhile is_digit s2, g)))))"

text \<open>
  \<^verbatim>\<open>(.+?)\s*\((\d+)\)\s*-\s*(.+)\<close>: the lazy first group grows by one character of the
  line at a time until the rest matches.
\<close>

fun lazy_name :: "string \<Rightarrow> string \<Rightarrow> (string \<times> string \<times> string) option" where
  "lazy_name acc [] = (case after_name [] of Some (i, g) \<Rightarrow> Some (acc, i, g) | None \<Rightarrow> None)"
| "lazy_name acc (c # cs) =
     (case after_name (c # cs) of
        Some (i, g) \<Rightarrow> Some (acc, i, g)
      | None \<Rightarrow> if is_line_terminator c then None else lazy_name (acc @ [c]) cs)"

definition info_at :: "string \<Rightarrow> (string \<times> string \<times> string) option" where
  "info_at s =
     (case s of [] \<Rightarrow> None | c # cs \<Rightarrow> if is_line_terminator c then None else lazy_name [c] cs)"

fun info_match :: "string \<Rightarrow> (string \<times> string \<times> string) option" where
  "info_match [] = info_at []"
| "info_match (c # cs) = (case info_at (c # cs) of Some g \<Rightarrow> Some g | None \<Rightarrow> info_match cs)"

definition parseStudentInfo :: "string \<Rightarrow> studentInfo option" where
  "parseStudentInfo text =
     (case info_match text of
        Some (n, i, t) \<Rightarrow> Some \<lparr>student_name = trim n, student_id = i, student_term = trim t\<rparr>
      | None \<Rightarrow> None)"

text \<open>
  \<^verbatim>\<open>([^(]+)\((\d+)\)\<close> of \<^verbatim>\<open>parseExcel\<close>, at the start of a text: the run up to the first
  opening parenthesis, which must be followed by digits and a closing parenthesis.
\<close>

definition label_at :: "string \<Rightarrow> (string \<times> string) option" where
  "label_at s =
     (let run = takeWhile (\<lambda>c. c \<noteq> CHR ''('') s in
      if run = [] then None
      else (case dropWhile (\<lambda>c. c \<noteq> CHR ''('') s of
              [] \<Rightarrow> None
            | c # s2 \<Rightarrow>
                if takeWhile is_digit s2 = [] then None
                else (case dropWhile is_digit s2 of
                        [] \<Rightarrow> None
                      | e # _ \<Rightarrow> if e = CHR '')'' then Some (run, takeWhile is_digit s2) else None)))"

fun label_match :: "string \<Rightarrow> (string \<times> string) option" where
  "label_match [] = label_at []"
| "label_match (c # cs) = (case label_at (c # cs) of Some g \<Rightarrow> Some g | None \<Rightarrow> label_match cs)"

text \<open>
  \<^verbatim>\<open>([A-Z]+)_V\s+(\d+)\s*[-]\s*(.+)\<close> at the start of a text; of the three dashes the
  source allows, the hyphen is the one inside the model.
\<close>

definition course_at :: "string \<Rightarrow> (string \<times> string \<times> string) option" where
  "course_at s =
     (let letters = takeWhile is_upper s; r1 = dropWhile is_upper s in
      if letters = [] \<or> \<not> starts_with r1 ''_V'' then None
      else
        (let r2 = drop 2 r1; r3 = dropWhile is_space r2 in
         if takeWhile is_space r2 = [] \<or> takeWhile is_digit r3 = [] then None
         else (case dropWhile is_space (dropWhile is_digit r3) of
                 [] \<Rightarrow> None
               | c # r5 \<Rightarrow>
                   if c \<noteq> CHR ''-'' then None
                   else (case free_text r5 of
                           None \<Rightarrow> None
                         | Some g \<Rightarrow> Some (letters, takeWhile is_digit r3, g)))))"

fun course_match :: "string \<Rightarrow> (string \<times> string \<times> string) option" where
  "course_match [] = course_at []"
| "course_match (c # cs) = (case course_at (c # cs) of Some g \<Rightarrow> Some g | None \<Rightarrow> course_match cs)"

subsection \<open>parseDate and parseCourseRow\<close>

text \<open>
  \<^verbatim>\<open>parseDate\<close> on a text. The date parser of the platform, \<^verbatim>\<open>new Date(text)\<close> followed by
  \<^verbatim>\<open>toISOString().split('T')[0]\<close>, is the parameter \<open>platform_date\<close>: \<^verbatim>\<open>None\<close> for a
  text it does not understand.
\<close>

definition parseDate :: "(string \<Rightarrow> string option) \<Rightarrow> string \<Rightarrow> string option" where
  "parseDate platform_date dateStr =
     (if dateStr = [] then None
      else if date_token dateStr \<noteq> None then Some (hd (str_split CHR '' '' dateStr))
      else platform_date dateStr)"

text \<open>\<^verbatim>\<open>columnMap\<close>: the index of each trimmed, non-empty header; a later header wins.\<close>

definition columnMap :: "cell list \<Rightarrow> string \<Rightarrow> nat option" where
  "columnMap headers =
     fold (\<lambda>(header, i) cm.
             case header of
               None \<Rightarrow> cm
             | Some h \<Rightarrow> if h \<noteq> [] \<and> trim h \<noteq> [] then cm(trim h \<mapsto> i) else cm)
       (zip headers [0 ..< length headers]) Map.empty"

definition cell_at :: "cell list \<Rightarrow> nat \<Rightarrow> cell" where
  "cell_at row i = (case index row i of Some c \<Rightarrow> c | None \<Rightarrow> None)"

definition column :: "cell list \<Rightarrow> cell list \<Rightarrow> string \<Rightarrow> cell" where
  "column row headers h = (case columnMap headers h of Some i \<Rightarrow> cell_at row i | None \<Rightarrow> None)"

text \<open>\<^verbatim>\<open>a || b\<close> on texts.\<close>

definition or_else :: "cell \<Rightarrow> cell \<Rightarrow> cell" where
  "or_else a b = (if truthy a then a else b)"

definition parseCourseRow ::
  "(string \<Rightarrow> string option) \<Rightarrow> cell list \<Rightarrow> cell list \<Rightarrow> studentInfo option \<Rightarrow> js_error + course" where
  "parseCourseRow platform_date row headers studentInfo =
     (let first = cell_at row 0;
          st = (if truthy first \<and> str_includes (the first) '' - '' \<and> str_includes (the first) ''(''
                   \<and> studentInfo = None
                then parseStudentInfo (the first) else studentInfo);
          courseListing = cell_at row 1;
          courseMatch = (if truthy courseListing then course_match (trim (the courseListing)) else None);
          meetingPattern =
            or_else (or_else (cell_at row 10) (column row headers ''Meeting Patterns'')) (Some []);
          sd = or_else (cell_at row 12) (column row headers ''Start Date'');
          ed = or_else (cell_at row 13) (column row headers ''End Date'')
      in case (if truthy meetingPattern then parseMeetingPatterns meetingPattern else Inr []) of
           Inl err \<Rightarrow> Inl err
         | Inr ms \<Rightarrow>
             Inr \<lparr>student = st,
                  code = (case courseMatch of Some (l, n, t) \<Rightarrow> l @ '' '' @ n | None \<Rightarrow> []),
                  name = Text (case courseMatch of Some (l, n, t) \<Rightarrow> trim t | None \<Rightarrow> []),
                  course_section = or_else (or_else (cell_at row 6) (column row headers ''Section'')) (Some []),
                  credits = or_else (or_else (cell_at row 4) (column row headers ''Credits'')) (Some []),
                  instructor = or_else (or_else (cell_at row 11) (column row headers ''Instructor'')) (Some []),
                  format = or_else (or_else (cell_at row 8) (column row headers ''Instructional Format'')) (Some []),
                  delivery = or_else (or_else (cell_at row 9) (column row headers ''Delivery Mode'')) (Some []),
                  status = or_else (or_else (cell_at row 7) (column row headers ''Registration Status'')) (Some []),
                  meetings = Some ms,
                  course_startDate = (if truthy sd then parseDate platform_date (the sd) else None),
                  course_endDate = (if truthy ed then parseDate platform_date (the ed) else None)\<rparr>)"

subsection \<open>parseExcel\<close>

text \<open>
  The student a row's first cell establishes, as the loop of \<^verbatim>\<open>parseExcel\<close> reads it: a
  cell with both parentheses in which the label expression matches.
\<close>

definition row_student :: "cell list \<Rightarrow> studentInfo option" where
  "row_student row =
     (case cell_at row 0 of
        None \<Rightarrow> None
      | Some s \<Rightarrow>
          if s \<noteq> [] \<and> str_includes s ''('' \<and> str_includes s '')''
          then (case label_match s of
                  Some (n, i) \<Rightarrow>
                    Some \<lparr>student_name = trim n, student_id = i, student_term = ''Current Term''\<rparr>
                | None \<Rightarrow> None)
          else None)"

text \<open>One turn of the loop over the data rows: the courses so far and \<^verbatim>\<open>currentStudent\<close>.\<close>

definition row_step ::
  "(string \<Rightarrow> string option) \<Rightarrow> cell list \<Rightarrow> cell list \<Rightarrow> course list \<times> studentInfo option \<Rightarrow>
     js_error + course list \<times> studentInfo option" where
  "row_step platform_date headers row st =
     (case st of
        (courses, currentStudent) \<Rightarrow>
          if row = [] then Inr (courses, currentStudent)
          else
            (let cur = (case row_student row of Some s \<Rightarrow> Some s | None \<Rightarrow> currentStudent) in
             if truthy (cell_at row 1) \<and> str_includes (the (cell_at row 1)) ''_V ''
             then (case parseCourseRow platform_date row headers cur of
                     Inl err \<Rightarrow> Inl err
                   | Inr c \<Rightarrow> Inr (if code c \<noteq> [] then courses @ [c] else courses, cur))
             else Inr (courses, cur)))"

fun rows_loop ::
  "(string \<Rightarrow> string option) \<Rightarrow> cell list \<Rightarrow> cell list list \<Rightarrow> course list \<times> studentInfo option \<Rightarrow>
     js_error + course list \<times> studentInfo option" where
  "rows_loop platform_date headers [] st = Inr st"
| "rows_loop platform_date headers (row # rows) st =
     (case row_step platform_date headers row st of
        Inl err \<Rightarrow> Inl err
      | Inr st' \<Rightarrow> rows_loop platform_date headers rows st')"

text \<open>The message of an exception, which the handler of \<^verbatim>\<open>parseExcel\<close> wraps.\<close>

definition error_message :: "js_error \<Rightarrow> string" where
  "error_message e =
     (case e of
        Error msg \<Rightarrow> msg
      | TypeError \<Rightarrow> ''Cannot read properties of undefined'')"

text \<open>
  \<^verbatim>\<open>parseExcel\<close> on the grid \<^verbatim>\<open>jsonData\<close> that the worksheet was read into: the header row
  is the sixth, the data rows start with the seventh.
\<close>

definition parseExcel :: "(string \<Rightarrow> string option) \<Rightarrow> cell list list \<Rightarrow> js_error + course list" where
  "parseExcel platform_date jsonData =
     (case (if length jsonData < 7 then Inl (Error ''Invalid file format: insufficient data rows'')
            else if \<not> validateHeaders (index jsonData 5)
              then Inl (Error ''Invalid file format: expected UBC Workday course schedule format'')
            else rows_loop platform_date (jsonData ! 5) (drop 6 jsonData) ([], None)) of
        Inl err \<Rightarrow> Inl (Error (''Failed to parse file: '' @ error_message err))
      | Inr (courses, currentStudent) \<Rightarrow> Inr courses)"

subsection \<open>Test data: a grid with a labelled course row and an unlabelled one\<close>

definition student_label :: string where
  "student_label = ''Test Student (12345678) - Fall 2025''"

definition labelled_row :: "cell list" where
  "labelled_row =
     [Some student_label, Some ''COMP_V 101 - Introduction to Computing'', None, None, Some ''3'',
      Some ''Graded'', Some ''COMP_V 101-001'', Some ''Registered'', Some ''Lecture'',
      Some ''In Person Learning'',
      Some ''2025-09-02 - 2025-12-04 | Mon Wed Fri | 9:00 a.m. - 10:00 a.m. | UBCV | Building | Floor: 1 | Room: 101'',
      Some ''Dr. Jane Smith'', Some ''2025-09-02'', Some ''2025-12-04'']"

definition unlabelled_row :: "cell list" where
  "unlabelled_row =
     [None, Some ''MATH_V 200 - Calculus III'', None, None, Some ''3'',
      Some ''Graded'', Some ''MATH_V 200-101'', Some ''Registered'', Some ''Lecture'',
      Some ''In Person Learning'',
      Some ''2025-09-03 - 2025-12-05 | Tue Thu | 2:00 p.m. - 3:30 p.m. | UBCV | Building | Floor: 2 | Room: 201'',
      Some ''Dr. John Doe'', Some ''2025-09-03'', Some ''2025-12-05'']"

definition test_grid :: "cell list list" where
  "test_grid = replicate 5 [] @ [None # test_headers, labelled_row, unlabelled_row]"

text \<open>
  What the date-range expression describes: somewhere in the text, a date token, white
  space, a dash, white space and a date token.
\<close>

definition is_date_token :: "string \<Rightarrow> bool" where
  "is_date_token t =
     (length t = 10 \<and> list_all is_digit (take 4 t) \<and> t ! 4 = CHR ''-'' \<and>
      list_all is_digit (take 2 (drop 5 t)) \<and> t ! 7 = CHR ''-'' \<and> list_all is_digit (drop 8 t))"

definition has_date_range :: "string \<Rightarrow> bool" where
  "has_date_range s =
     (\<exists>pre d1 w1 w2 d2 post.
        s = pre @ d1 @ w1 @ CHR ''-'' # w2 @ d2 @ post \<and> is_date_token d1 \<and> is_date_token d2 \<and>
        list_all is_space w1 \<and> list_all is_space w2)"

section \<open>Verification\<close>

subsection \<open>Digits, numbers and splitting\<close>

lemma known_simps [simp]:
  "known (Text s) = Some s" "known Null = None" "known Undefined = None"
  by (simp_all add: known_def)

lemma template_simps [simp]:
  "template (Text s) = s" "template Null = ''null''" "template Undefined = ''undefined''"
  by (simp_all add: template_def)

lemma digit_val_lt: "is_digit c \<Longrightarrow> digit_val c < 10"
  by (auto simp: is_digit_def digit_val_def)

lemma digit_char_val: "is_digit c \<Longrightarrow> digit_char (digit_val c) = c"
  by (auto simp: is_digit_def digit_val_def digit_char_def)

lemma digit_not_space: "is_digit c \<Longrightarrow> \<not> is_space c"
  by (auto simp: is_digit_def is_space_def)

lemma digit_not_colon: "is_digit c \<Longrightarrow> c \<noteq> CHR '':''"
  by (auto simp: is_digit_def)

lemma str_split_nonempty: "str_split sep s \<noteq> []"
  by (induction s) (auto split: list.splits)

lemma str_split_no_sep: "sep \<notin> set s \<Longrightarrow> str_split sep s = [s]"
  by (induction s) auto

lemma str_split_append: "sep \<notin> set s \<Longrightarrow> str_split sep (s @ sep # t) = s # str_split sep t"
  by (induction s) auto

lemma trim_digits: "list_all is_digit s \<Longrightarrow> trim s = s"
proof (cases s rule: rev_cases)
  case Nil
  then show ?thesis by (simp add: trim_def)
next
  case (snoc ys y)
  assume d: "list_all is_digit s"
  with snoc have "\<not> is_space y" by (simp add: digit_not_space)
  moreover from d have "dropWhile is_space s = s"
    by (cases s) (auto simp: digit_not_space)
  ultimately show ?thesis using snoc by (simp add: trim_def)
qed

lemma Number_digits: "list_all is_digit s \<Longrightarrow> s \<noteq> [] \<Longrightarrow> Number s = Some (int (dec_value 0 s))"
  by (simp add: Number_def trim_digits)

lemma pad_two_digits:
  "0 \<le> n \<Longrightarrow> n < 100 \<Longrightarrow> padStart 2 CHR ''0'' (int_toString n) = two_digits (nat n)"
proof (cases "n < 10")
  case True
  assume "0 \<le> n"
  with True show ?thesis
    by (simp add: padStart_def two_digits_def int_toString_def int_digits.simps [of n] digit_char_def)
next
  case False
  assume "0 \<le> n" "n < 100"
  with False have "n div 10 < 10" "0 \<le> n div 10" by simp_all
  with False \<open>0 \<le> n\<close> show ?thesis
    by (simp add: padStart_def two_digits_def int_toString_def int_digits.simps [of n]
        int_digits.simps [of "n div 10"] nat_div_distrib nat_mod_distrib)
qed

lemma two_digits_dec_value:
  "list_all is_digit ms \<Longrightarrow> length ms = 2 \<Longrightarrow> two_digits (dec_value 0 ms) = ms \<and> dec_value 0 ms < 100"
proof -
  assume d: "list_all is_digit ms" and l: "length ms = 2"
  then obtain a b where ms: "ms = [a, b]"
    by (cases ms; cases "tl ms") auto
  with d have a: "digit_val a < 10" and b: "digit_val b < 10"
    by (simp_all add: digit_val_lt)
  from d ms show ?thesis using a b
    by (simp add: two_digits_def digit_char_val)
qed

text \<open>
  C9: for a time \<^verbatim>\<open>H:MM\<close> with the hour in 1..12, \<^verbatim>\<open>convertTo24Hour\<close> maps hour 12
  to 00 for a.m., keeps 12 for p.m., adds 12 to any other p.m. hour, keeps any other a.m.
  hour, and returns the zero-padded \<^verbatim>\<open>HH:MM\<close>; the four examples of the
  specification follow as instances.
\<close>

theorem convertTo24Hour_spec:
  assumes hs: "list_all is_digit hs" "length hs = 1 \<or> length hs = 2"
    and h: "1 \<le> dec_value 0 hs" "dec_value 0 hs \<le> 12"
    and ms: "list_all is_digit ms" "length ms = 2"
    and p: "period = ''a.m.'' \<or> period = ''p.m.''"
  shows "convertTo24Hour (hs @ '':'' @ ms) period =
           Inr (two_digits (hour24_spec (dec_value 0 hs) period) @ '':'' @ ms)"
proof -
  have ne: "hs \<noteq> []" "ms \<noteq> []" using hs ms by auto
  have "CHR '':'' \<notin> set hs" "CHR '':'' \<notin> set ms"
    using hs(1) ms(1) by (auto simp: list_all_iff dest: digit_not_colon)
  then have sp: "str_split CHR '':'' (hs @ CHR '':'' # ms) = [hs, ms]"
    by (simp add: str_split_append str_split_no_sep)
  have nh: "Number hs = Some (int (dec_value 0 hs))" and nm: "Number ms = Some (int (dec_value 0 ms))"
    using hs(1) ms(1) ne by (simp_all add: Number_digits)
  have m: "padStart 2 CHR ''0'' (int_toString (int (dec_value 0 ms))) = ms"
    using two_digits_dec_value [OF ms] by (simp add: pad_two_digits)
  have hb: "hour24_spec (dec_value 0 hs) period < 100"
    using h by (simp add: hour24_spec_def)
  from p show ?thesis
  proof
    assume "period = ''a.m.''"
    then show ?thesis using h hb
      by (simp add: convertTo24Hour_def sp nh nm m num_toString_def
          hour24_spec_def pad_two_digits)
  next
    assume "period = ''p.m.''"
    then show ?thesis using h hb
      by (simp add: convertTo24Hour_def sp nh nm m num_toString_def
          hour24_spec_def pad_two_digits nat_add_distrib)
  qed
qed

theorem convertTo24Hour_spec_witness:
  "convertTo24Hour ''9:30'' ''a.m.'' = Inr ''09:30'' \<and>
   convertTo24Hour ''12:00'' ''p.m.'' = Inr ''12:00'' \<and>
   convertTo24Hour ''12:30'' ''a.m.'' = Inr ''00:30'' \<and>
   convertTo24Hour ''2:45'' ''p.m.'' = Inr ''14:45''"
  using convertTo24Hour_spec [of "''9''" "''30''" "''a.m.''"]
    convertTo24Hour_spec [of "''12''" "''00''" "''p.m.''"]
    convertTo24Hour_spec [of "''12''" "''30''" "''a.m.''"]
    convertTo24Hour_spec [of "''2''" "''45''" "''p.m.''"]
  by (simp add: is_digit_def digit_val_def two_digits_def hour24_spec_def digit_char_def)

subsection \<open>validateHeaders\<close>

lemma starts_with_iff: "starts_with s t \<longleftrightarrow> (\<exists>q. s = t @ q)"
  by (induction s t rule: starts_with.induct) auto

lemma str_includes_iff: "str_includes s t \<longleftrightarrow> is_substring t s"
proof (induction s)
  case Nil
  then show ?case by (auto simp: is_substring_def)
next
  case (Cons c cs)
  have "is_substring t (c # cs) \<longleftrightarrow> (\<exists>q. c # cs = t @ q) \<or> is_substring t cs"
    unfolding is_substring_def
    by (auto simp: Cons_eq_append_conv) (metis append_Nil)?
  with Cons show ?case
    by (simp add: starts_with_iff del: starts_with.simps)
qed

text \<open>
  C4 as stated fails: a header row of three cells holds every critical term, and
  \<^verbatim>\<open>validateHeaders\<close> rejects it, because it has fewer than five cells.
\<close>

theorem validateHeaders_counterexample:
  "validateHeaders (Some [Some ''Drop'', Some ''Credits'', Some ''Grading'']) = False \<and>
   headers_contract [Some ''Drop'', Some ''Credits'', Some ''Grading'']"
proof -
  have "is_substring ''drop'' ''dropcreditsgrading''"
    unfolding is_substring_def by (rule exI [of _ "[]"], rule exI [of _ "''creditsgrading''"]) simp
  moreover have "is_substring ''credits'' ''dropcreditsgrading''"
    unfolding is_substring_def by (rule exI [of _ "''drop''"], rule exI [of _ "''grading''"]) simp
  moreover have "is_substring ''grading'' ''dropcreditsgrading''"
    unfolding is_substring_def by (rule exI [of _ "''dropcredits''"], rule exI [of _ "[]"]) simp
  ultimately show ?thesis
    by (simp add: validateHeaders_def headers_contract_def toLowerCase_def lower_char_def)
qed

text \<open>
  C4, amended: \<^verbatim>\<open>validateHeaders\<close> accepts a header row exactly when it has at least
  five cells and each of drop, credits and grading is a substring of the lower-cased text of
  its non-empty cells joined by single spaces.
\<close>

theorem validateHeaders_iff:
  "validateHeaders (Some hs) \<longleftrightarrow>
     5 \<le> length hs \<and>
     is_substring ''drop'' (toLowerCase (join '' '' [s. Some s \<leftarrow> hs, s \<noteq> []])) \<and>
     is_substring ''credits'' (toLowerCase (join '' '' [s. Some s \<leftarrow> hs, s \<noteq> []])) \<and>
     is_substring ''grading'' (toLowerCase (join '' '' [s. Some s \<leftarrow> hs, s \<noteq> []]))"
  by (simp add: validateHeaders_def criticalHeaders_def headerString_def str_includes_iff
      toLowerCase_def lower_char_def)

theorem validateHeaders_iff_witness:
  "validateHeaders (Some test_headers) \<and> 5 \<le> length test_headers \<and>
     is_substring ''drop'' (toLowerCase (join '' '' [s. Some s \<leftarrow> test_headers, s \<noteq> []])) \<and>
     is_substring ''credits'' (toLowerCase (join '' '' [s. Some s \<leftarrow> test_headers, s \<noteq> []])) \<and>
     is_substring ''grading'' (toLowerCase (join '' '' [s. Some s \<leftarrow> test_headers, s \<noteq> []]))"
proof -
  have e: "validateHeaders (Some test_headers)"
    by code_simp
  show ?thesis
    by (rule conjI [OF e iffD1 [OF validateHeaders_iff e]])
qed

subsection \<open>The serializer\<close>

lemma getFirstOccurrence_truthy:
  "truthy (getFirstOccurrence sd dso tm) \<longleftrightarrow>
     truthy sd \<and> (case dso of None \<Rightarrow> False | Some ds \<Rightarrow> ds \<noteq> []) \<and> truthy tm"
  by (auto simp: getFirstOccurrence_def truthy_def Let_def split: option.splits)

lemma createRecurringEvents_emitted:
  "length (filter event_emitted (fst (createRecurringEvents clock k c m))) =
     (if meeting_emits m then 1 else 0)"
  by (auto simp: createRecurringEvents_def event_emitted_def meeting_emits_def has_days_def
      getFirstOccurrence_truthy split: option.splits)

lemma events_loop_mono: "set ls \<subseteq> set (fst (events_loop clock es (ls, k)))"
proof (induction es arbitrary: ls k)
  case Nil
  then show ?case by simp
next
  case (Cons e es)
  obtain l k' where e: "event_lines clock k e = (l, k')"
    by (cases "event_lines clock k e")
  with Cons [of "ls @ l" k'] show ?case by auto
qed

lemma events_loop_member:
  "e \<in> set es \<Longrightarrow> \<exists>j. set (fst (event_lines clock j e)) \<subseteq> set (fst (events_loop clock es (ls, k)))"
proof (induction es arbitrary: ls k)
  case Nil
  then show ?case by simp
next
  case (Cons x es)
  obtain l k' where x: "event_lines clock k x = (l, k')"
    by (cases "event_lines clock k x")
  show ?case
  proof (cases "e = x")
    case True
    have "set l \<subseteq> set (fst (events_loop clock es (ls @ l, k')))"
      using events_loop_mono [of "ls @ l" clock es k'] by simp
    with True x have "set (fst (event_lines clock k e)) \<subseteq> set (fst (events_loop clock (x # es) (ls, k)))"
      by simp
    then show ?thesis by blast
  next
    case False
    with Cons.prems have "e \<in> set es" by simp
    from Cons.IH [OF this, of "ls @ l" k'] x show ?thesis by simp
  qed
qed

lemma meetings_loop_mono: "set evs \<subseteq> set (fst (meetings_loop clock c ms (evs, k)))"
proof (induction ms arbitrary: evs k)
  case Nil
  then show ?case by simp
next
  case (Cons m ms)
  obtain es k' where e: "createRecurringEvents clock k c m = (es, k')"
    by (cases "createRecurringEvents clock k c m")
  with Cons [of "evs @ es" k'] show ?case by auto
qed

lemma meetings_loop_member:
  "m \<in> set ms \<Longrightarrow>
     \<exists>j. set (fst (createRecurringEvents clock j c m)) \<subseteq> set (fst (meetings_loop clock c ms (evs, k)))"
proof (induction ms arbitrary: evs k)
  case Nil
  then show ?case by simp
next
  case (Cons x ms)
  obtain es k' where x: "createRecurringEvents clock k c x = (es, k')"
    by (cases "createRecurringEvents clock k c x")
  show ?case
  proof (cases "m = x")
    case True
    have "set es \<subseteq> set (fst (meetings_loop clock c ms (evs @ es, k')))"
      using meetings_loop_mono [of "evs @ es" clock c ms k'] by simp
    with True x
    have "set (fst (createRecurringEvents clock k c m)) \<subseteq> set (fst (meetings_loop clock c (x # ms) (evs, k)))"
      by simp
    then show ?thesis by blast
  next
    case False
    with Cons.prems have "m \<in> set ms" by simp
    from Cons.IH [OF this, of "evs @ es" k'] x show ?thesis by simp
  qed
qed

lemma courses_loop_mono: "set evs \<subseteq> set (fst (courses_loop clock cs (evs, k)))"
proof (induction cs arbitrary: evs k)
  case Nil
  then show ?case by simp
next
  case (Cons c cs)
  show ?case
  proof (cases "meetings c")
    case None
    with Cons [of evs k] show ?thesis by simp
  next
    case (Some ms)
    obtain evs' k' where l: "meetings_loop clock c ms (evs, k) = (evs', k')"
      by (cases "meetings_loop clock c ms (evs, k)")
    with meetings_loop_mono [of evs clock c ms k] have "set evs \<subseteq> set evs'" by simp
    with Some l Cons [of evs' k'] Cons [of evs k] show ?thesis by auto
  qed
qed

lemma courses_loop_member:
  "c \<in> set cs \<Longrightarrow> meetings c = Some ms \<Longrightarrow> m \<in> set ms \<Longrightarrow>
     \<exists>j. set (fst (createRecurringEvents clock j c m)) \<subseteq> set (fst (courses_loop clock cs (evs, k)))"
proof (induction cs arbitrary: evs k)
  case Nil
  then show ?case by simp
next
  case (Cons x cs)
  show ?case
  proof (cases "c = x")
    case True
    from Cons.prems have ne: "ms \<noteq> []" by auto
    obtain evs' k' where l: "meetings_loop clock c ms (evs, k) = (evs', k')"
      by (cases "meetings_loop clock c ms (evs, k)")
    from meetings_loop_member [OF Cons.prems(3), of clock c evs k] l
    obtain j where "set (fst (createRecurringEvents clock j c m)) \<subseteq> set evs'" by auto
    moreover have "set evs' \<subseteq> set (fst (courses_loop clock cs (evs', k')))"
      by (rule courses_loop_mono)
    ultimately have "set (fst (createRecurringEvents clock j c m))
        \<subseteq> set (fst (courses_loop clock (x # cs) (evs, k)))"
      using True Cons.prems(2) ne l by simp
    then show ?thesis by blast
  next
    case False
    with Cons.prems have "c \<in> set cs" by simp
    note ih = Cons.IH [OF this Cons.prems(2,3)]
    obtain evs' k' where
      "(case meetings x of None \<Rightarrow> (evs, k)
        | Some ms \<Rightarrow> if length ms > 0 then meetings_loop clock x ms (evs, k) else (evs, k)) = (evs', k')"
      by (cases "(case meetings x of None \<Rightarrow> (evs, k)
        | Some ms \<Rightarrow> if length ms > 0 then meetings_loop clock x ms (evs, k) else (evs, k))")
    with ih [of evs' k'] show ?thesis by simp
  qed
qed

subsection \<open>Escaping, and the lines of the text\<close>

lemma replace_all_Nil [simp]: "replace_all c r [] = []"
  by (simp add: replace_all_def)

lemma replace_all_Cons [simp]:
  "replace_all c r (x # s) = (if x = c then r else [x]) @ replace_all c r s"
  by (simp add: replace_all_def)

lemma replace_all_append [simp]:
  "replace_all c r (s @ t) = replace_all c r s @ replace_all c r t"
  by (simp add: replace_all_def)

lemma escapeText_rfc: "s \<noteq> [] \<Longrightarrow> escapeText (Some s) = rfc_escape s"
proof -
  have "replace_all (CHR 0x0D) []
          (replace_all (CHR 0x0A) [CHR 0x5C, CHR ''n'']
            (replace_all CHR '','' [CHR 0x5C, CHR '','']
              (replace_all CHR '';'' [CHR 0x5C, CHR '';'']
                (replace_all (CHR 0x5C) [CHR 0x5C, CHR 0x5C] s)))) = rfc_escape s"
    by (induction s) (simp_all add: rfc_escape_def escape_char_def)
  then show "s \<noteq> [] \<Longrightarrow> escapeText (Some s) = rfc_escape s"
    by (simp add: escapeText_def truthy_def)
qed

text \<open>
  Escaping changes every text that holds a comma, a semicolon or a backslash: it adds a
  backslash for each of them, and drops none.
\<close>

lemma rfc_escape_backslashes:
  "length (filter (\<lambda>x. x = CHR 0x5C) (rfc_escape s)) =
     2 * length (filter (\<lambda>x. x = CHR 0x5C) s) + length (filter (\<lambda>x. x = CHR '';'') s) +
     length (filter (\<lambda>x. x = CHR '','') s) + length (filter (\<lambda>x. x = CHR 0x0A) s)"
  by (induction s) (simp_all add: rfc_escape_def escape_char_def)

lemma rfc_escape_changes:
  assumes "CHR '','' \<in> set s \<or> CHR '';'' \<in> set s \<or> CHR 0x5C \<in> set s"
  shows "rfc_escape s \<noteq> s"
proof
  assume e: "rfc_escape s = s"
  have pos: "x \<in> set s \<Longrightarrow> 0 < length (filter (\<lambda>y. y = x) s)" for x
    by (induction s) auto
  from rfc_escape_backslashes [of s] e
  have "length (filter (\<lambda>x. x = CHR 0x5C) s) + length (filter (\<lambda>x. x = CHR '';'') s) +
     length (filter (\<lambda>x. x = CHR '','') s) = 0" by simp
  with assms pos [of "CHR '',''"] pos [of "CHR '';''"] pos [of "CHR 0x5C"] show False by auto
qed

lemma join_append:
  "p \<noteq> [] \<Longrightarrow> q \<noteq> [] \<Longrightarrow> join sep (p @ q) = join sep p @ sep @ join sep q"
proof (induction sep p rule: join.induct)
  case (1 sep)
  then show ?case by simp
next
  case (2 sep x)
  then show ?case by (cases q) simp_all
next
  case (3 sep x y ys)
  then show ?case by simp
qed

lemma join_Cons: "q \<noteq> [] \<Longrightarrow> join sep (x # q) = x @ sep @ join sep q"
  by (cases q) simp_all

lemma join_has_line:
  assumes "l \<in> set mid" and "h \<noteq> []"
  shows "is_substring (sep @ l @ sep) (join sep (h @ mid @ [f]))"
proof -
  from assms(1) obtain p q where m: "mid = p @ l # q" by (auto simp: in_set_conv_decomp)
  have "join sep (h @ mid @ [f]) = join sep ((h @ p) @ (l # q @ [f]))"
    using m by simp
  also have "\<dots> = join sep (h @ p) @ sep @ join sep (l # q @ [f])"
    using assms(2) by (intro join_append) simp_all
  also have "\<dots> = join sep (h @ p) @ sep @ l @ sep @ join sep (q @ [f])"
    by (simp add: join_Cons)
  finally show ?thesis
    unfolding is_substring_def by (intro exI [of _ "join sep (h @ p)"] exI [of _ "join sep (q @ [f])"]) simp
qed

lemma events_loop_prefix:
  "fst (events_loop clock es (ls, k)) = ls @ fst (events_loop clock es ([], k))"
proof (induction es arbitrary: ls k)
  case Nil
  then show ?case by simp
next
  case (Cons e es)
  obtain l k' where e: "event_lines clock k e = (l, k')"
    by (cases "event_lines clock k e")
  from Cons [of "ls @ l" k'] Cons [of l k'] e show ?case by simp
qed

lemma generateICS_text:
  assumes "generateICS_events clock courses = (evs, k)"
  shows "generateICS clock courses =
           join [CHR 0x0D, CHR 0x0A]
             (header_lines @ fst (events_loop clock evs ([], k)) @ [''END:VCALENDAR''])"
  using assms events_loop_prefix [of clock evs header_lines k]
  by (simp add: generateICS_def buildICSContent_def buildICSLines_def)

lemma header_lines_nonempty: "header_lines \<noteq> []"
  by (simp add: header_lines_def)

lemma event_line_written:
  assumes g: "generateICS_events clock courses = (evs, k)" and e: "e \<in> set evs"
    and l: "\<And>i. l \<in> set (fst (event_lines clock i e))"
  shows "writes_line clock courses l"
proof -
  from events_loop_member [OF e, of clock "[]" k] obtain j where
    "set (fst (event_lines clock j e)) \<subseteq> set (fst (events_loop clock evs ([], k)))" by blast
  with l [of j] have m: "l \<in> set (fst (events_loop clock evs ([], k)))" by blast
  have "generateICS_lines clock courses =
          header_lines @ fst (events_loop clock evs ([], k)) @ [''END:VCALENDAR'']"
    using g events_loop_prefix [of clock evs header_lines k]
    by (simp add: generateICS_lines_def buildICSLines_def)
  with m have "l \<in> set (generateICS_lines clock courses)" by simp
  moreover
  from join_has_line [OF m header_lines_nonempty, of "[CHR 0x0D, CHR 0x0A]" "''END:VCALENDAR''"]
  have "text_has_line (generateICS clock courses) l"
    unfolding text_has_line_def str_includes_iff generateICS_text [OF g] by simp
  ultimately show ?thesis by (simp add: writes_line_def)
qed

text \<open>
  C10: for every meeting that yields an event, \<^verbatim>\<open>generateICS\<close> writes the
  \<^verbatim>\<open>SUMMARY\<close>, \<^verbatim>\<open>DESCRIPTION\<close> and \<^verbatim>\<open>LOCATION\<close> lines with their values escaped as
  RFC 5545 prescribes (every backslash, semicolon and comma behind a backslash, every line
  feed as backslash n), while its \<^verbatim>\<open>CATEGORIES\<close> line holds the course's format (or
  \<^verbatim>\<open>Lecture\<close>) character for character, so with every comma, semicolon and backslash of
  the format unescaped.
\<close>

theorem generateICS_escaping:
  assumes "c \<in> set courses" and "meetings c = Some ms" and "m \<in> set ms" and "meeting_emits m"
  shows "writes_line clock courses
           (''SUMMARY:'' @ rfc_escape (code c @ '' - '' @ template (name c))) \<and>
         (buildDescription c \<noteq> [] \<longrightarrow>
            writes_line clock courses
              (''DESCRIPTION:'' @ rfc_escape (buildDescription c))) \<and>
         (truthy (location m) \<longrightarrow>
            writes_line clock courses
              (''LOCATION:'' @ rfc_escape (the (location m)))) \<and>
         writes_line clock courses
           (''CATEGORIES:'' @ (if truthy (format c) then the (format c) else ''Lecture''))"
proof -
  obtain evs k where g: "generateICS_events clock courses = (evs, k)"
    by (cases "generateICS_events clock courses")
  from courses_loop_member [OF assms(1-3), of clock "[]" 0] g
  obtain j where j: "set (fst (createRecurringEvents clock j c m)) \<subseteq> set evs"
    by (auto simp: generateICS_events_def)
  from assms(4) obtain ds where ds: "days m = Some ds" "ds \<noteq> []"
    by (auto simp: meeting_emits_def has_days_def split: option.splits)
  define e where "e = hd (fst (createRecurringEvents clock j c m))"
  have ce: "fst (createRecurringEvents clock j c m) = [e]"
    using ds by (simp add: e_def createRecurringEvents_def)
  with j have mem: "e \<in> set evs" by simp
  have em: "event_emitted e"
    using createRecurringEvents_emitted [of clock j c m] assms(4) ce
    by (simp split: if_splits)
  have fields: "summary e = code c @ '' - '' @ template (name c)"
    "description e = buildDescription c" "event_location e = location m"
    "categories e = (if truthy (format c) then the (format c) else ''Lecture'')"
    using ds by (simp_all add: e_def createRecurringEvents_def)
  have cat: "categories e \<noteq> []"
    using fields(4) by (auto simp: truthy_def split: option.splits)
  have s: "escapeText (Some (summary e)) = rfc_escape (summary e)"
    by (rule escapeText_rfc) (simp add: fields)
  have "''SUMMARY:'' @ rfc_escape (summary e) \<in> set (fst (event_lines clock i e))" for i
    using em s by (simp add: event_lines_def event_emitted_def)
  note summary_line = event_line_written [OF g mem this]
  have "''DESCRIPTION:'' @ rfc_escape (description e) \<in> set (fst (event_lines clock i e))"
    if "description e \<noteq> []" for i
    using em that escapeText_rfc [OF that] by (simp add: event_lines_def event_emitted_def)
  note description_line = event_line_written [OF g mem this]
  have "''LOCATION:'' @ rfc_escape (the (event_location e)) \<in> set (fst (event_lines clock i e))"
    if "truthy (event_location e)" for i
  proof -
    from that obtain t where t: "event_location e = Some t" "t \<noteq> []"
      by (auto simp: truthy_def split: option.splits)
    with em that escapeText_rfc [OF t(2)] show ?thesis
      by (simp add: event_lines_def event_emitted_def)
  qed
  note location_line = event_line_written [OF g mem this]
  have "''CATEGORIES:'' @ categories e \<in> set (fst (event_lines clock i e))" for i
    using em cat by (simp add: event_lines_def event_emitted_def)
  note categories_line = event_line_written [OF g mem this]
  from summary_line description_line location_line categories_line show ?thesis
    unfolding fields by simp
qed

theorem generateICS_escaping_witness:
  "writes_line still_clock [comma_course]
     (''SUMMARY:TEST 101 - Sets'' @ [CHR 0x5C] @ '', Logic'' @ [CHR 0x5C] @ ''; Proofs'') \<and>
   writes_line still_clock [comma_course]
     (''DESCRIPTION:Course: TEST 101 - Sets'' @ [CHR 0x5C] @ '', Logic'' @ [CHR 0x5C] @ ''; Proofs'' @
      [CHR 0x5C, CHR 0x5C] @ ''nInstructor: Test Instructor'' @
      [CHR 0x5C, CHR 0x5C] @ ''nCredits: 3'' @
      [CHR 0x5C, CHR 0x5C] @ ''nFormat: Lecture'' @ [CHR 0x5C] @ '', Seminar'' @ [CHR 0x5C] @ ''; Lab'') \<and>
   writes_line still_clock [comma_course]
     (''LOCATION:Hall 2'' @ [CHR 0x5C] @ '', West Wing'' @ [CHR 0x5C] @ ''; Room 5'') \<and>
   writes_line still_clock [comma_course] ''CATEGORIES:Lecture, Seminar; Lab''"
proof -
  define m where "m = test_meeting\<lparr>location := Some ''Hall 2, West Wing; Room 5''\<rparr>"
  have h: "comma_course \<in> set [comma_course]" "meetings comma_course = Some [m]"
    "m \<in> set [m]" "meeting_emits m"
    by (simp_all add: m_def comma_course_def test_course_def test_meeting_def meeting_emits_def
        has_days_def truthy_def)
  have e: "rfc_escape (code comma_course @ '' - '' @ template (name comma_course))
             = ''TEST 101 - Sets'' @ [CHR 0x5C] @ '', Logic'' @ [CHR 0x5C] @ ''; Proofs''"
    "buildDescription comma_course \<noteq> []"
    "rfc_escape (buildDescription comma_course) =
       ''Course: TEST 101 - Sets'' @ [CHR 0x5C] @ '', Logic'' @ [CHR 0x5C] @ ''; Proofs'' @
       [CHR 0x5C, CHR 0x5C] @ ''nInstructor: Test Instructor'' @
       [CHR 0x5C, CHR 0x5C] @ ''nCredits: 3'' @
       [CHR 0x5C, CHR 0x5C] @ ''nFormat: Lecture'' @ [CHR 0x5C] @ '', Seminar'' @ [CHR 0x5C] @ ''; Lab''"
    "truthy (location m)"
    "rfc_escape (the (location m)) = ''Hall 2'' @ [CHR 0x5C] @ '', West Wing'' @ [CHR 0x5C] @ ''; Room 5''"
    "(if truthy (format comma_course) then the (format comma_course) else ''Lecture'')
       = ''Lecture, Seminar; Lab''"
    unfolding m_def by code_simp+
  from generateICS_escaping [OF h, of still_clock] e show ?thesis
    by simp
qed

subsection \<open>Lines of the text\<close>

lemma text_lines_Cons:
  "s \<noteq> [] \<Longrightarrow> text_lines (c # s) =
     (if c = CHR 0x0D \<and> hd s = CHR 0x0A then [] # text_lines (tl s)
      else (case text_lines s of l # ls \<Rightarrow> (c # l) # ls | [] \<Rightarrow> [[c]]))"
  by (cases s) simp_all

lemma text_lines_unbroken: "unbroken l \<Longrightarrow> text_lines l = [l]"
proof (induction l)
  case Nil
  then show ?case by simp
next
  case (Cons c l)
  then show ?case by (cases "l = []") (auto simp: text_lines_Cons unbroken_def)
qed

lemma text_lines_append:
  "unbroken l \<Longrightarrow> text_lines (l @ CHR 0x0D # CHR 0x0A # r) = l # text_lines r"
proof (induction l)
  case Nil
  then show ?case by simp
next
  case (Cons c l)
  then show ?case by (auto simp: text_lines_Cons unbroken_def)
qed

lemma text_lines_join:
  "ls \<noteq> [] \<Longrightarrow> list_all unbroken ls \<Longrightarrow> text_lines (join [CHR 0x0D, CHR 0x0A] ls) = ls"
proof (induction "[CHR 0x0D, CHR 0x0A]" ls rule: join.induct)
  case 1
  then show ?case by simp
next
  case (2 x)
  then show ?case by (simp add: text_lines_unbroken)
next
  case (3 x y ys)
  then show ?case by (simp add: text_lines_append)
qed

subsection \<open>What the serializer writes holds no carriage return\<close>

lemma unbroken_simps [simp]:
  "unbroken []" "unbroken (c # s) \<longleftrightarrow> c \<noteq> CHR 0x0D \<and> unbroken s"
  "unbroken (s @ t) \<longleftrightarrow> unbroken s \<and> unbroken t"
  by (auto simp: unbroken_def)

lemma digit_char_is_digit: "n < 10 \<Longrightarrow> is_digit (digit_char n)"
  unfolding digit_char_def is_digit_def by (rule nth_mem) simp

lemma is_digit_not_CR: "is_digit c \<Longrightarrow> c \<noteq> CHR 0x0D"
  by (auto simp: is_digit_def)

lemma int_digits_unbroken: "unbroken (int_digits n)"
proof (induction n rule: int_digits.induct)
  case (1 n)
  have a: "digit_char (nat n) \<noteq> CHR 0x0D" if "n < 10"
    using that by (intro is_digit_not_CR digit_char_is_digit) simp
  have b: "digit_char (nat (n mod 10)) \<noteq> CHR 0x0D"
    by (intro is_digit_not_CR digit_char_is_digit) simp
  show ?case
    using 1 a b by (subst int_digits.simps) simp
qed

lemma int_toString_unbroken: "unbroken (int_toString i)"
  by (simp add: int_toString_def int_digits_unbroken)

lemma num_toString_unbroken: "unbroken (num_toString v)"
  by (cases v) (simp_all add: num_toString_def int_toString_unbroken)

lemma padStart_unbroken: "unbroken s \<Longrightarrow> unbroken (padStart n CHR ''0'' s)"
  by (simp add: padStart_def unbroken_def)

lemma formatDate_unbroken: "unbroken (formatDate d)"
  by (simp add: formatDate_def num_toString_unbroken padStart_unbroken)

lemma getFirstOccurrence_unbroken:
  "unbroken_option tm \<Longrightarrow> unbroken_option (getFirstOccurrence sd dso tm)"
proof -
  have r: "unbroken t \<Longrightarrow> unbroken (remove1 c t)" for c t
    using set_remove1_subset [of c t] by (auto simp: unbroken_def)
  show "unbroken_option tm \<Longrightarrow> unbroken_option (getFirstOccurrence sd dso tm)"
    by (cases sd; cases dso; cases tm)
      (simp_all add: getFirstOccurrence_def unbroken_option_def Let_def formatDate_unbroken r)
qed

lemma join_unbroken: "unbroken sep \<Longrightarrow> list_all unbroken ls \<Longrightarrow> unbroken (join sep ls)"
  by (induction sep ls rule: join.induct) simp_all

lemma replace_all_unbroken: "unbroken r \<Longrightarrow> unbroken s \<Longrightarrow> unbroken (replace_all c r s)"
  by (induction s) simp_all

lemma buildRRule_unbroken:
  "unbroken_meeting m \<Longrightarrow> unbroken_option (buildRRule m)"
  by (cases "endDate m"; cases "days m")
    (simp_all add: buildRRule_def unbroken_meeting_def unbroken_option_def join_unbroken
      replace_all_unbroken)

lemma filter_unbroken: "\<not> P (CHR 0x0D) \<Longrightarrow> unbroken (filter P s)"
  by (auto simp: unbroken_def)

lemma generateUID_unbroken: "unbroken (generateUID t c m ds)"
proof -
  have "\<not> is_alnum (CHR 0x0D)" by (simp add: is_alnum_def is_digit_def)
  moreover have "is_space (CHR 0x0D)" by (simp add: is_space_def)
  ultimately show ?thesis
    by (simp add: generateUID_def Let_def filter_unbroken int_toString_unbroken del: filter_append)
qed

lemma getCurrentTimestamp_unbroken: "unbroken (getCurrentTimestamp now)"
  by (simp add: getCurrentTimestamp_def Let_def int_toString_unbroken padStart_unbroken)

lemma escapeText_unbroken: "unbroken (escapeText v)"
proof -
  have "unbroken (replace_all (CHR 0x0D) [] s)" for s
    by (induction s) simp_all
  then show ?thesis by (simp add: escapeText_def)
qed

lemma truthy_unbroken: "truthy v \<Longrightarrow> unbroken_option v \<Longrightarrow> unbroken (the v)"
  by (cases v) (simp_all add: unbroken_option_def truthy_def)

lemma event_lines_unbroken:
  assumes "unbroken_event e"
  shows "list_all unbroken (fst (event_lines clock k e))"
proof (cases "truthy (dtstart e) \<and> truthy (dtend e)")
  case False
  then show ?thesis by (simp add: event_lines_def)
next
  case True
  from assms have u: "unbroken (uid e)" "unbroken_option (dtstart e)" "unbroken_option (dtend e)"
    "unbroken_option (rrule e)" "unbroken (categories e)" "unbroken (event_status e)"
    by (simp_all add: unbroken_event_def)
  from True u have "unbroken (the (dtstart e))" "unbroken (the (dtend e))"
    by (simp_all add: truthy_unbroken)
  moreover have "truthy (rrule e) \<Longrightarrow> unbroken (the (rrule e))"
    using u by (simp add: truthy_unbroken)
  ultimately show ?thesis
    using True u
    by (simp add: event_lines_def getCurrentTimestamp_unbroken escapeText_unbroken)
qed

lemma createRecurringEvents_unbroken:
  "unbroken_option (format c) \<Longrightarrow> unbroken_meeting m \<Longrightarrow>
     list_all unbroken_event (fst (createRecurringEvents clock k c m))"
proof -
  assume f: "unbroken_option (format c)" and m: "unbroken_meeting m"
  from m have t: "unbroken_option (startTime m)" "unbroken_option (endTime m)"
    by (simp_all add: unbroken_meeting_def)
  have cat: "truthy (format c) \<Longrightarrow> unbroken (the (format c))"
    using f by (simp add: truthy_unbroken)
  show ?thesis
    using cat buildRRule_unbroken [OF m] getFirstOccurrence_unbroken [OF t(1)]
      getFirstOccurrence_unbroken [OF t(2)]
    by (simp add: createRecurringEvents_def unbroken_event_def generateUID_unbroken
        split: option.splits)
qed

lemma meetings_loop_unbroken:
  "list_all unbroken_event evs \<Longrightarrow> unbroken_option (format c) \<Longrightarrow>
   list_all unbroken_meeting ms \<Longrightarrow>
     list_all unbroken_event (fst (meetings_loop clock c ms (evs, k)))"
proof (induction ms arbitrary: evs k)
  case Nil
  then show ?case by simp
next
  case (Cons m ms)
  obtain es k' where e: "createRecurringEvents clock k c m = (es, k')"
    by (cases "createRecurringEvents clock k c m")
  with createRecurringEvents_unbroken [of c m clock k] Cons.prems
  have "list_all unbroken_event es" by simp
  with Cons.IH [of "evs @ es" k'] Cons.prems e show ?case by simp
qed

lemma courses_loop_unbroken:
  "list_all unbroken_event evs \<Longrightarrow> list_all unbroken_course cs \<Longrightarrow>
     list_all unbroken_event (fst (courses_loop clock cs (evs, k)))"
proof (induction cs arbitrary: evs k)
  case Nil
  then show ?case by simp
next
  case (Cons c cs)
  show ?case
  proof (cases "meetings c")
    case None
    with Cons.IH [of evs k] Cons.prems show ?thesis by simp
  next
    case (Some ms)
    obtain evs' k' where l: "meetings_loop clock c ms (evs, k) = (evs', k')"
      by (cases "meetings_loop clock c ms (evs, k)")
    from Cons.prems Some have "unbroken_option (format c)" "list_all unbroken_meeting ms"
      by (simp_all add: unbroken_course_def)
    from meetings_loop_unbroken [OF Cons.prems(1) this, of clock k] l
    have "list_all unbroken_event evs'" by simp
    with Cons.IH [of evs' k'] Cons.IH [of evs k] Cons.prems Some l show ?thesis by simp
  qed
qed

lemma events_loop_unbroken:
  "list_all unbroken ls \<Longrightarrow> list_all unbroken_event es \<Longrightarrow>
     list_all unbroken (fst (events_loop clock es (ls, k)))"
proof (induction es arbitrary: ls k)
  case Nil
  then show ?case by simp
next
  case (Cons e es)
  obtain l k' where e: "event_lines clock k e = (l, k')"
    by (cases "event_lines clock k e")
  with event_lines_unbroken [of e clock k] Cons.prems have "list_all unbroken l" by simp
  with Cons.IH [of "ls @ l" k'] Cons.prems e show ?case by simp
qed

lemma header_lines_unbroken: "list_all unbroken header_lines"
  by (simp add: header_lines_def)

lemma generateICS_text_lines:
  assumes "list_all unbroken_course courses"
  shows "text_lines (generateICS clock courses) = generateICS_lines clock courses"
proof -
  obtain evs k where g: "generateICS_events clock courses = (evs, k)"
    by (cases "generateICS_events clock courses")
  from courses_loop_unbroken [OF _ assms, of "[]" clock 0] g
  have "list_all unbroken_event evs" by (simp add: generateICS_events_def)
  from events_loop_unbroken [OF header_lines_unbroken this, of clock k]
  have "list_all unbroken (buildICSLines clock k evs)"
    by (simp add: buildICSLines_def)
  moreover have "buildICSLines clock k evs \<noteq> []" by (simp add: buildICSLines_def)
  ultimately show ?thesis
    using g by (simp add: generateICS_def generateICS_lines_def buildICSContent_def text_lines_join)
qed

subsection \<open>The event blocks\<close>

lemma vevent_blocks_skip:
  "''BEGIN:VEVENT'' \<notin> set h \<Longrightarrow> vevent_blocks None (h @ r) = vevent_blocks None r"
  by (induction h) auto

lemma vevent_blocks_body:
  "''END:VEVENT'' \<notin> set b \<Longrightarrow>
     vevent_blocks (Some a) (b @ ''END:VEVENT'' # r) = (a @ b) # vevent_blocks None r"
  by (induction b arbitrary: a) auto

lemma vevent_blocks_concat:
  "\<forall>b \<in> set bs. ''END:VEVENT'' \<notin> set b \<Longrightarrow>
     vevent_blocks None (concat (map (\<lambda>b. ''BEGIN:VEVENT'' # b @ [''END:VEVENT'']) bs) @ r) =
       bs @ vevent_blocks None r"
proof (induction bs)
  case Nil
  then show ?case by simp
next
  case (Cons b bs)
  from Cons.prems have "''END:VEVENT'' \<notin> set b" by simp
  from vevent_blocks_body [OF this, of "[]"] Cons show ?case by simp
qed

lemma count_concat_blocks:
  "\<forall>b \<in> set bs. ''BEGIN:VEVENT'' \<notin> set b \<Longrightarrow>
     count_list (concat (map (\<lambda>b. ''BEGIN:VEVENT'' # b @ [''END:VEVENT'']) bs)) ''BEGIN:VEVENT'' =
       length bs"
  by (induction bs) simp_all

lemma event_lines_block:
  assumes "event_emitted e"
  shows "\<exists>b. fst (event_lines clock k e) = ''BEGIN:VEVENT'' # b @ [''END:VEVENT''] \<and>
             ''BEGIN:VEVENT'' \<notin> set b \<and> ''END:VEVENT'' \<notin> set b \<and>
             has_rrule b = truthy (rrule e)"
proof -
  define b where "b =
     [''UID:'' @ uid e,
      ''DTSTAMP:'' @ getCurrentTimestamp (clock k),
      ''DTSTART;TZID=America/Vancouver:'' @ the (dtstart e),
      ''DTEND;TZID=America/Vancouver:'' @ the (dtend e)] @
     (if truthy (rrule e) then [''RRULE:'' @ the (rrule e)] else []) @
     [''SUMMARY:'' @ escapeText (Some (summary e))] @
     (if description e \<noteq> [] then [''DESCRIPTION:'' @ escapeText (Some (description e))] else []) @
     (if truthy (event_location e) then [''LOCATION:'' @ escapeText (event_location e)] else []) @
     (if categories e \<noteq> [] then [''CATEGORIES:'' @ categories e] else []) @
     [''STATUS:'' @ (if event_status e \<noteq> [] then event_status e else ''CONFIRMED'')]"
  have "fst (event_lines clock k e) = ''BEGIN:VEVENT'' # b @ [''END:VEVENT'']"
    using assms by (simp add: event_lines_def event_emitted_def b_def)
  moreover have "''BEGIN:VEVENT'' \<notin> set b" by (simp add: b_def)
  moreover have "''END:VEVENT'' \<notin> set b" by (simp add: b_def)
  moreover have "has_rrule b = truthy (rrule e)" by (simp add: b_def has_rrule_def)
  ultimately show ?thesis by blast
qed

lemma event_lines_none: "\<not> event_emitted e \<Longrightarrow> fst (event_lines clock k e) = []"
  by (auto simp: event_lines_def event_emitted_def)

lemma events_loop_blocks:
  "\<exists>bs. fst (events_loop clock es ([], k)) =
            concat (map (\<lambda>b. ''BEGIN:VEVENT'' # b @ [''END:VEVENT'']) bs) \<and>
        (\<forall>b \<in> set bs. ''BEGIN:VEVENT'' \<notin> set b \<and> ''END:VEVENT'' \<notin> set b) \<and>
        map has_rrule bs = map (\<lambda>e. truthy (rrule e)) (filter event_emitted es)"
proof (induction es arbitrary: k)
  case Nil
  show ?case by (rule exI [of _ "[]"]) simp
next
  case (Cons e es)
  obtain l k' where e: "event_lines clock k e = (l, k')"
    by (cases "event_lines clock k e")
  from Cons [of k'] obtain bs where bs:
    "fst (events_loop clock es ([], k')) =
       concat (map (\<lambda>b. ''BEGIN:VEVENT'' # b @ [''END:VEVENT'']) bs)"
    "\<forall>b \<in> set bs. ''BEGIN:VEVENT'' \<notin> set b \<and> ''END:VEVENT'' \<notin> set b"
    "map has_rrule bs = map (\<lambda>e. truthy (rrule e)) (filter event_emitted es)"
    by blast
  have split: "fst (events_loop clock (e # es) ([], k)) = l @ fst (events_loop clock es ([], k'))"
    using e events_loop_prefix [of clock es l k'] by simp
  show ?case
  proof (cases "event_emitted e")
    case True
    from event_lines_block [OF True, of clock k] e obtain b where b:
      "l = ''BEGIN:VEVENT'' # b @ [''END:VEVENT'']" "''BEGIN:VEVENT'' \<notin> set b"
      "''END:VEVENT'' \<notin> set b" "has_rrule b = truthy (rrule e)"
      by auto
    show ?thesis
      unfolding split by (rule exI [of _ "b # bs"]) (simp add: bs b True)
  next
    case False
    with event_lines_none [of e clock k] e have "l = []" by simp
    with False show ?thesis
      unfolding split by (intro exI [of _ bs]) (simp add: bs)
  qed
qed

subsection \<open>From the events to the meetings\<close>

lemma buildRRule_truthy: "has_days m \<Longrightarrow> truthy (buildRRule m) = truthy (endDate m)"
  by (cases "endDate m"; cases "days m") (simp_all add: buildRRule_def has_days_def truthy_def)

lemma createRecurringEvents_rrules:
  "map (\<lambda>e. truthy (rrule e)) (filter event_emitted (fst (createRecurringEvents clock k c m))) =
     map (\<lambda>m. truthy (endDate m)) (filter meeting_emits [m])"
proof (cases "has_days m")
  case False
  then show ?thesis
    by (cases "days m") (simp_all add: createRecurringEvents_def meeting_emits_def has_days_def)
next
  case True
  then obtain ds where ds: "days m = Some ds" "ds \<noteq> []"
    by (auto simp: has_days_def split: option.splits)
  define e where "e = hd (fst (createRecurringEvents clock k c m))"
  have ce: "fst (createRecurringEvents clock k c m) = [e]"
    using ds by (simp add: e_def createRecurringEvents_def)
  have r: "rrule e = buildRRule m"
    using ds by (simp add: e_def createRecurringEvents_def)
  have "event_emitted e = meeting_emits m"
    using createRecurringEvents_emitted [of clock k c m] ce by (simp split: if_splits)
  with ce r buildRRule_truthy [OF True] show ?thesis by simp
qed

lemma meetings_loop_rrules:
  "map (\<lambda>e. truthy (rrule e)) (filter event_emitted (fst (meetings_loop clock c ms (evs, k)))) =
     map (\<lambda>e. truthy (rrule e)) (filter event_emitted evs) @
     map (\<lambda>m. truthy (endDate m)) (filter meeting_emits ms)"
proof (induction ms arbitrary: evs k)
  case Nil
  then show ?case by simp
next
  case (Cons m ms)
  obtain es k' where e: "createRecurringEvents clock k c m = (es, k')"
    by (cases "createRecurringEvents clock k c m")
  with createRecurringEvents_rrules [of clock k c m]
  have "map (\<lambda>e. truthy (rrule e)) (filter event_emitted es) =
          map (\<lambda>m. truthy (endDate m)) (filter meeting_emits [m])" by simp
  with Cons [of "evs @ es" k'] e show ?case by simp
qed

lemma courses_loop_rrules:
  "map (\<lambda>e. truthy (rrule e)) (filter event_emitted (fst (courses_loop clock cs (evs, k)))) =
     map (\<lambda>e. truthy (rrule e)) (filter event_emitted evs) @
     map (\<lambda>m. truthy (endDate m)) (filter meeting_emits (all_meetings cs))"
proof (induction cs arbitrary: evs k)
  case Nil
  then show ?case by (simp add: all_meetings_def)
next
  case (Cons c cs)
  show ?case
  proof (cases "meetings c")
    case None
    with Cons [of evs k] show ?thesis by (simp add: all_meetings_def)
  next
    case (Some ms)
    show ?thesis
    proof (cases "ms = []")
      case True
      with Some Cons [of evs k] show ?thesis by (simp add: all_meetings_def)
    next
      case False
      obtain evs' k' where l: "meetings_loop clock c ms (evs, k) = (evs', k')"
        by (cases "meetings_loop clock c ms (evs, k)")
      with meetings_loop_rrules [of clock c ms evs k]
      have "map (\<lambda>e. truthy (rrule e)) (filter event_emitted evs') =
              map (\<lambda>e. truthy (rrule e)) (filter event_emitted evs) @
              map (\<lambda>m. truthy (endDate m)) (filter meeting_emits ms)" by simp
      with Some False l Cons [of evs' k'] show ?thesis by (simp add: all_meetings_def)
    qed
  qed
qed

lemma header_lines_no_event: "''BEGIN:VEVENT'' \<notin> set header_lines"
  by (simp add: header_lines_def)

lemma generateICS_lines_blocks:
  "\<exists>bs. generateICS_lines clock courses =
            header_lines @ concat (map (\<lambda>b. ''BEGIN:VEVENT'' # b @ [''END:VEVENT'']) bs) @
            [''END:VCALENDAR''] \<and>
        (\<forall>b \<in> set bs. ''BEGIN:VEVENT'' \<notin> set b \<and> ''END:VEVENT'' \<notin> set b) \<and>
        map has_rrule bs =
          map (\<lambda>m. truthy (endDate m)) (filter meeting_emits (all_meetings courses))"
proof -
  obtain evs k where g: "generateICS_events clock courses = (evs, k)"
    by (cases "generateICS_events clock courses")
  from courses_loop_rrules [of clock courses "[]" 0] g
  have r: "map (\<lambda>e. truthy (rrule e)) (filter event_emitted evs) =
          map (\<lambda>m. truthy (endDate m)) (filter meeting_emits (all_meetings courses))"
    by (simp add: generateICS_events_def)
  from events_loop_blocks [of clock evs k] obtain bs where bs:
    "fst (events_loop clock evs ([], k)) =
       concat (map (\<lambda>b. ''BEGIN:VEVENT'' # b @ [''END:VEVENT'']) bs)"
    "\<forall>b \<in> set bs. ''BEGIN:VEVENT'' \<notin> set b \<and> ''END:VEVENT'' \<notin> set b"
    "map has_rrule bs = map (\<lambda>e. truthy (rrule e)) (filter event_emitted evs)"
    by blast
  have "generateICS_lines clock courses =
          header_lines @ fst (events_loop clock evs ([], k)) @ [''END:VCALENDAR'']"
    using g events_loop_prefix [of clock evs header_lines k]
    by (simp add: generateICS_lines_def buildICSLines_def)
  with bs r show ?thesis by (intro exI [of _ bs]) simp
qed

text \<open>
  C1, amended: let no format, start time, end time, end date or day code of the courses hold a
  carriage return. Then the number of \<^verbatim>\<open>BEGIN:VEVENT\<close> lines in the text
  \<^verbatim>\<open>generateICS\<close> returns equals the number of meetings, over all input courses, that
  have a non-empty day array, a start date, a start time and an end time. The end date
  plays no part in that: the \<^verbatim>\<open>VEVENT\<close> blocks of the text are those of these meetings, in
  their order, and a block holds an \<^verbatim>\<open>RRULE\<close> line exactly when its meeting has an end
  date.
\<close>

theorem generateICS_event_count:
  assumes "list_all unbroken_course courses"
  shows "count_list (text_lines (generateICS clock courses)) ''BEGIN:VEVENT'' =
           length (filter meeting_emits (all_meetings courses)) \<and>
         map has_rrule (vevent_blocks None (text_lines (generateICS clock courses))) =
           map (\<lambda>m. truthy (endDate m)) (filter meeting_emits (all_meetings courses))"
proof -
  from generateICS_lines_blocks [of clock courses] obtain bs where bs:
    "generateICS_lines clock courses =
       header_lines @ concat (map (\<lambda>b. ''BEGIN:VEVENT'' # b @ [''END:VEVENT'']) bs) @
       [''END:VCALENDAR'']"
    "\<forall>b \<in> set bs. ''BEGIN:VEVENT'' \<notin> set b \<and> ''END:VEVENT'' \<notin> set b"
    "map has_rrule bs =
       map (\<lambda>m. truthy (endDate m)) (filter meeting_emits (all_meetings courses))"
    by blast
  from bs(3) have len: "length bs = length (filter meeting_emits (all_meetings courses))"
    by (metis length_map)
  have t: "text_lines (generateICS clock courses) = generateICS_lines clock courses"
    by (rule generateICS_text_lines [OF assms])
  have "count_list header_lines ''BEGIN:VEVENT'' = 0"
    using header_lines_no_event by (simp add: count_list_0_iff)
  then have "count_list (generateICS_lines clock courses) ''BEGIN:VEVENT'' = length bs"
    using bs(2) by (simp add: bs(1) count_concat_blocks)
  moreover have "vevent_blocks None (generateICS_lines clock courses) = bs"
    using bs(2) vevent_blocks_skip [OF header_lines_no_event]
    by (simp add: bs(1) vevent_blocks_concat)
  ultimately show ?thesis
    using t len bs(3) by simp
qed

theorem generateICS_event_count_witness:
  "count_list (text_lines (generateICS still_clock [test_course, open_ended_course]))
     ''BEGIN:VEVENT'' = 2 \<and>
   map has_rrule (vevent_blocks None
     (text_lines (generateICS still_clock [test_course, open_ended_course]))) = [True, False]"
proof -
  have h: "list_all unbroken_course [test_course, open_ended_course]"
    by code_simp
  have e: "length (filter meeting_emits (all_meetings [test_course, open_ended_course])) = 2"
    "map (\<lambda>m. truthy (endDate m)) (filter meeting_emits (all_meetings [test_course, open_ended_course]))
       = [True, False]"
    by code_simp+
  from generateICS_event_count [OF h, of still_clock] show ?thesis
    unfolding e by simp
qed

text \<open>
  C1 as stated fails: a meeting with days, a start date and times but no end date yields one
  \<^verbatim>\<open>VEVENT\<close>, while the specification counts no meeting of that course.
\<close>

theorem generateICS_event_count_counterexample:
  "count_list (text_lines (generateICS still_clock [open_ended_course])) ''BEGIN:VEVENT'' = 1 \<and>
   map has_rrule (vevent_blocks None (text_lines (generateICS still_clock [open_ended_course])))
     = [False] \<and>
   length (filter counted_by_spec (all_meetings [open_ended_course])) = 0"
  by code_simp

text \<open>
  Without the condition on carriage returns the count fails: a format that holds a CRLF
  breaks the \<^verbatim>\<open>CATEGORIES\<close> line, and what follows the CRLF is read as a line of its own.
\<close>

lemma line_break_in_format:
  "count_list (text_lines (generateICS still_clock [broken_course])) ''BEGIN:VEVENT'' = 2 \<and>
   length (filter meeting_emits (all_meetings [broken_course])) = 1"
  by code_simp

text \<open>
  C7 fails on the code: two meetings of one course with the same start date and days, built
  within one millisecond, receive the same \<^verbatim>\<open>UID\<close>, and the document holds it twice.
\<close>

theorem generateUID_collision:
  "map uid (fst (generateICS_events still_clock [lecture_and_lab])) =
     [''CPSC110-20250902TUTH-1762000000123@workday-cal'',
      ''CPSC110-20250902TUTH-1762000000123@workday-cal''] \<and>
   count_list (generateICS_lines still_clock [lecture_and_lab])
     ''UID:CPSC110-20250902TUTH-1762000000123@workday-cal'' = 2"
  by code_simp

text \<open>
  C8 fails on the code: \<^verbatim>\<open>buildDescription\<close> joins the fields with a backslash and the
  letter n, and \<^verbatim>\<open>escapeText\<close> then doubles that backslash, so the fields are separated by
  two backslashes and an n; the escaped newline-joined text is not in the output.
\<close>

theorem description_separator:
  "''DESCRIPTION:Course: TEST 101 - Test Course'' @ [CHR 0x5C, CHR 0x5C, CHR ''n''] @
     ''Instructor: Test Instructor'' @ [CHR 0x5C, CHR 0x5C, CHR ''n''] @ ''Credits: 3''
     \<in> set (generateICS_lines still_clock [test_course]) \<and>
   ''DESCRIPTION:'' @ escapeText (Some (join [CHR 0x0A]
       [''Course: TEST 101 - Test Course'', ''Instructor: Test Instructor'', ''Credits: 3'']))
     \<notin> set (generateICS_lines still_clock [test_course])"
  by code_simp

subsection \<open>Term classification\<close>

text \<open>
  C6: when the student-level term text matches no pattern of step 1 and the course has a
  start date and an end date, both \<^verbatim>\<open>determineTerm\<close> functions (the course list of
  app.js and the weekly grid of calendar-view.js) return the first matching label of the
  cascade over the start and end month numbers.
\<close>

theorem determineTerm_cascade:
  assumes "no_step1_match c"
    and "course_startDate c = Some sd" and "sd \<noteq> []"
    and "course_endDate c = Some ed" and "ed \<noteq> []"
    and "month_number sd = Some s" and "month_number ed = Some e"
    and "spec_cascade s e = Some l"
  shows "determineTerm c = l \<and> view_determineTerm c = l"
proof -
  have ch: "month_chain (Some s) (Some e) = Some l"
    using assms(8)
    by (auto simp: spec_cascade_def month_chain_def num_ge_def num_le_def split: if_splits)
  have t1: "(case student c of None \<Rightarrow> None | Some st \<Rightarrow> if student_term st = [] then None else
                   (let termInfo = toLowerCase (student_term st) in
                    if str_includes termInfo ''full year'' \<or> str_includes termInfo ''year long''
                      then Some ''Winter Full Year''
                    else if str_includes termInfo ''winter'' \<and> str_includes termInfo ''term 1''
                      then Some ''Winter Term 1''
                    else if str_includes termInfo ''winter'' \<and> str_includes termInfo ''term 2''
                      then Some ''Winter Term 2''
                    else if str_includes termInfo ''summer'' \<and> str_includes termInfo ''term 1''
                      then Some ''Summer Term 1''
                    else if str_includes termInfo ''summer'' \<and> str_includes termInfo ''term 2''
                      then Some ''Summer Term 2''
                    else if str_includes termInfo ''term 1'' then Some ''Winter Term 1''
                    else if str_includes termInfo ''term 2'' then Some ''Winter Term 2''
                    else None)) = None"
    using assms(1) by (auto simp: no_step1_match_def step1_matches_def Let_def split: option.splits)
  have t2: "(case student c of None \<Rightarrow> None | Some st \<Rightarrow> if student_term st = [] then None else
                   (let termInfo = toLowerCase (student_term st) in
                    if str_includes termInfo ''winter'' \<and> str_includes termInfo ''term 1''
                      then Some ''Winter Term 1''
                    else if str_includes termInfo ''winter'' \<and> str_includes termInfo ''term 2''
                      then Some ''Winter Term 2''
                    else if str_includes termInfo ''summer'' \<and> str_includes termInfo ''term 1''
                      then Some ''Summer Term 1''
                    else if str_includes termInfo ''summer'' \<and> str_includes termInfo ''term 2''
                      then Some ''Summer Term 2''
                    else None)) = None"
    using assms(1) by (auto simp: no_step1_match_def step1_matches_def Let_def split: option.splits)
  have a: "determineTerm c = l"
    unfolding determineTerm_def t1 using assms(2-7) ch by (simp add: truthy_def)
  have b: "view_determineTerm c = l"
    unfolding view_determineTerm_def t2 using assms(2-7) ch
    by (simp add: truthy_def month_chain_def)
  from a b show ?thesis ..
qed

theorem determineTerm_cascade_witness:
  "determineTerm full_year_course = ''Winter Full Year'' \<and>
   view_determineTerm full_year_course = ''Winter Full Year''"
proof -
  have h: "no_step1_match full_year_course"
    "course_startDate full_year_course = Some ''2025-09-02''" "''2025-09-02'' \<noteq> []"
    "course_endDate full_year_course = Some ''2026-04-08''" "''2026-04-08'' \<noteq> []"
    "month_number ''2025-09-02'' = Some 9" "month_number ''2026-04-08'' = Some 4"
    "spec_cascade 9 4 = Some ''Winter Full Year''"
    by code_simp+
  from determineTerm_cascade [OF h] show ?thesis .
qed

subsection \<open>parseMeetingPatterns\<close>

lemma str_split_two: "sep \<in> set s \<Longrightarrow> \<exists>a b rest. str_split sep s = a # b # rest"
proof (induction s)
  case Nil
  then show ?case by simp
next
  case (Cons c cs)
  show ?case
  proof (cases "c = sep")
    case True
    then show ?thesis using str_split_nonempty [of sep cs]
      by (cases "str_split sep cs") auto
  next
    case False
    with Cons obtain a b rest where "str_split sep cs = a # b # rest" by auto
    with False show ?thesis by simp
  qed
qed

lemma convertTo24Hour_no_error: "CHR '':'' \<in> set t \<Longrightarrow> \<exists>r. convertTo24Hour t p = Inr r"
proof -
  assume "CHR '':'' \<in> set t"
  from str_split_two [OF this] obtain a b rest where "str_split CHR '':'' t = a # b # rest"
    by blast
  then show ?thesis by (simp add: convertTo24Hour_def Let_def)
qed

lemma time_token_colon: "time_token s = Some (t, r) \<Longrightarrow> CHR '':'' \<in> set t"
proof -
  assume a: "time_token s = Some (t, r)"
  show ?thesis
  proof (cases "length s \<ge> 5 \<and> is_digit (s ! 0) \<and> is_digit (s ! 1) \<and> s ! 2 = CHR '':'' \<and>
         is_digit (s ! 3) \<and> is_digit (s ! 4)")
    case True
    with a have t: "t = take 5 s" by (simp add: time_token_def)
    from True have "2 < length (take 5 s)" by simp
    then have "take 5 s ! 2 \<in> set (take 5 s)" by (rule nth_mem)
    then have "s ! 2 \<in> set (take 5 s)" by simp
    with True t show ?thesis by simp
  next
    case False
    with a have t: "t = take 4 s" and c: "length s \<ge> 4" "s ! 1 = CHR '':''"
      by (auto simp: time_token_def split: if_splits)
    from c have "1 < length (take 4 s)" by simp
    then have "take 4 s ! 1 \<in> set (take 4 s)" by (rule nth_mem)
    then have "s ! 1 \<in> set (take 4 s)" by simp
    with c t show ?thesis by simp
  qed
qed

lemma time_range_at_colon:
  assumes "time_range_at s = Some (t1, p1, t2, p2)"
  shows "CHR '':'' \<in> set t1 \<and> CHR '':'' \<in> set t2"
proof -
  from assms have "\<exists>r1 x r4. time_token s = Some (t1, r1) \<and> time_token x = Some (t2, r4)"
    by (auto simp: time_range_at_def split: option.splits list.splits if_splits) blast
  then show ?thesis using time_token_colon by blast
qed

lemma time_range_match_colon:
  "time_range_match s = Some (t1, p1, t2, p2) \<Longrightarrow> CHR '':'' \<in> set t1 \<and> CHR '':'' \<in> set t2"
proof (induction s)
  case Nil
  then show ?case using time_range_at_colon [of "[]"] by simp
next
  case (Cons c cs)
  then show ?case using time_range_at_colon [of "c # cs"]
    by (cases "time_range_at (c # cs)") auto
qed

lemma parse_line_cases:
  "parse_line l = Inr None \<and> \<not> line_qualifies l \<or>
   (\<exists>m. parse_line l = Inr (Some m) \<and> line_qualifies l \<and>
        date_range_match (trim (str_split CHR ''|'' l ! 0)) = Some (the (known (startDate m)), the (endDate m)))"
proof (cases "line_qualifies l")
  case False
  then show ?thesis
    by (auto simp: parse_line_def line_qualifies_def Let_def split: option.splits)
next
  case True
  then have len: "length (map trim (str_split CHR ''|'' l)) \<ge> 3" 
    by (simp_all add: line_qualifies_def Let_def)
  from True obtain d1 d2 t1 p1 t2 p2 where
    d: "date_range_match (map trim (str_split CHR ''|'' l) ! 0) = Some (d1, d2)"
    and t: "time_range_match (map trim (str_split CHR ''|'' l) ! 2) = Some (t1, p1, t2, p2)"
    by (auto simp: line_qualifies_def Let_def)
  from time_range_match_colon [OF t] convertTo24Hour_no_error
  obtain st et where c: "convertTo24Hour t1 p1 = Inr st" "convertTo24Hour t2 p2 = Inr et"
    by blast
  from len have "0 < length (str_split CHR ''|'' l)"
    by (cases "str_split CHR ''|'' l") auto
  then have "map trim (str_split CHR ''|'' l) ! 0 = trim (str_split CHR ''|'' l ! 0)"
    by (rule nth_map)
  with d have d': "date_range_match (trim (str_split CHR ''|'' l ! 0)) = Some (d1, d2)" by simp
  have "parse_line l = Inr (Some \<lparr>startDate = Text d1, endDate = Some d2,
      days = Some (parseDays (map trim (str_split CHR ''|'' l) ! 1)), startTime = Some st,
      endTime = Some et,
      location = Some (parseLocation (join '' | '' (drop 3 (map trim (str_split CHR ''|'' l)))))\<rparr>)"
    using len d t c by (simp add: parse_line_def Let_def)
  with True d' show ?thesis by simp
qed

lemma lines_loop_map_filter:
  "lines_loop ls ms = Inr (ms @ List.map_filter meeting_of_line ls)"
proof (induction ls arbitrary: ms)
  case Nil
  then show ?case by (simp add: List.map_filter_simps)
next
  case (Cons l ls)
  from parse_line_cases [of l] show ?case
  proof
    assume "parse_line l = Inr None \<and> \<not> line_qualifies l"
    with Cons [of ms] show ?thesis by (simp add: List.map_filter_simps meeting_of_line_def)
  next
    assume "\<exists>m. parse_line l = Inr (Some m) \<and> line_qualifies l \<and>
        date_range_match (trim (str_split CHR ''|'' l ! 0)) = Some (the (known (startDate m)), the (endDate m))"
    then obtain m where "parse_line l = Inr (Some m)" by blast
    with Cons [of "ms @ [m]"] show ?thesis by (simp add: List.map_filter_simps meeting_of_line_def)
  qed
qed







subsection \<open>The calendar\<close>

lemma DayFromYear_mono: "a \<le> b \<Longrightarrow> DayFromYear a \<le> DayFromYear b"
proof (induction b rule: int_ge_induct)
  case base
  then show ?case by simp
next
  case (step i)
  with DayFromYear_step [of i] DaysInYear_pos [of i] show ?case by simp
qed

lemma DayFromYear_strict: "a < b \<Longrightarrow> DayFromYear a < DayFromYear b"
proof -
  assume "a < b"
  then have "a + 1 \<le> b" by simp
  from DayFromYear_mono [OF this] DayFromYear_step [of a] DaysInYear_pos [of a]
  show ?thesis by simp
qed

lemma year_down_le: "DayFromYear (year_down y t) \<le> t"
proof (induction y t rule: year_down.induct)
  case (1 y t)
  then show ?case by (subst year_down.simps) auto
qed

lemma year_up_bounds:
  "DayFromYear y \<le> t \<Longrightarrow> DayFromYear (year_up y t) \<le> t \<and> t < DayFromYear (year_up y t + 1)"
proof (induction y t rule: year_up.induct)
  case (1 y t)
  then show ?case by (subst (1 2) year_up.simps) auto
qed

lemma YearFromTime_bounds:
  "DayFromYear (YearFromTime t) \<le> t \<and> t < DayFromYear (YearFromTime t + 1)"
  unfolding YearFromTime_def by (rule year_up_bounds) (rule year_down_le)

lemma YearFromTime_unique:
  assumes "DayFromYear y \<le> t" and "t < DayFromYear (y + 1)"
  shows "YearFromTime t = y"
proof (rule ccontr)
  assume n: "YearFromTime t \<noteq> y"
  note b = YearFromTime_bounds [of t]
  show False
  proof (cases "YearFromTime t < y")
    case True
    then have "YearFromTime t + 1 \<le> y" by simp
    from DayFromYear_mono [OF this] b assms show False by simp
  next
    case False
    with n have "y + 1 \<le> YearFromTime t" by simp
    from DayFromYear_mono [OF this] b assms show False by simp
  qed
qed

lemma DayWithinYear_bounds: "0 \<le> DayWithinYear t \<and> DayWithinYear t < DaysInYear (YearFromTime t)"
  using YearFromTime_bounds [of t] DayFromYear_step [of "YearFromTime t"]
  by (simp add: DayWithinYear_def)

lemma MonthFromTime_range: "0 \<le> MonthFromTime t \<and> MonthFromTime t \<le> 11"
  by (simp add: MonthFromTime_def Let_def)

lemma MakeDay_in_year:
  "0 \<le> m \<Longrightarrow> m \<le> 11 \<Longrightarrow>
     MakeDay y m d = DayFromYear y + month_start (if DaysInYear y = 366 then 1 else 0) m + d - 1"
  by (simp add: MakeDay_def Let_def)

lemma setDate_getDate_plus: "MakeDay (YearFromTime t) (MonthFromTime t) (DateFromTime t + k) = t + k"
proof -
  note r = MonthFromTime_range [of t]
  have "MakeDay (YearFromTime t) (MonthFromTime t) (DateFromTime t + k) =
      DayFromYear (YearFromTime t) + month_start (InLeapYear t) (MonthFromTime t)
        + (DateFromTime t + k) - 1"
    using r by (simp add: MakeDay_in_year InLeapYear_def)
  also have "\<dots> = t + k"
    by (simp add: DateFromTime_def DayWithinYear_def)
  finally show ?thesis .
qed

lemma WeekDay_range: "0 \<le> WeekDay t \<and> WeekDay t \<le> 6"
  by (simp add: WeekDay_def)

lemma WeekDay_plus: "WeekDay (t + k) = (WeekDay t + k) mod 7"
  by (simp add: WeekDay_def mod_simps algebra_simps)

lemma DaysInYear_cases: "DaysInYear y = 365 \<or> DaysInYear y = 366"
  by (simp add: DaysInYear_def)

lemma month_cases: "1 \<le> m \<Longrightarrow> m \<le> 12 \<Longrightarrow>
  m = 1 \<or> m = 2 \<or> m = 3 \<or> m = 4 \<or> m = 5 \<or> m = 6 \<or> m = 7 \<or> m = 8 \<or> m = 9 \<or> m = 10 \<or> m = 11 \<or> m = (12::int)"
  by arith

lemma day_within_year:
  assumes "valid_date y m d"
  shows "0 \<le> month_start (if DaysInYear y = 366 then 1 else 0) (m - 1) + d - 1 \<and>
      month_start (if DaysInYear y = 366 then 1 else 0) (m - 1) + d - 1 < DaysInYear y"
proof -
  from assms have m: "1 \<le> m" "m \<le> 12" and d: "1 \<le> d" "d \<le> days_in_month y m"
    by (simp_all add: valid_date_def)
  from DaysInYear_cases [of y] show ?thesis
  proof
    assume l: "DaysInYear y = 365"
    from month_cases [OF m] d show ?thesis
      by (elim disjE) (simp_all add: l month_start_def days_in_month_def)
  next
    assume l: "DaysInYear y = 366"
    from month_cases [OF m] d show ?thesis
      by (elim disjE) (simp_all add: l month_start_def days_in_month_def)
  qed
qed

lemma day_number_in_year:
  assumes "valid_date y m d"
  shows "DayFromYear y \<le> day_number y m d \<and> day_number y m d < DayFromYear (y + 1)"
proof -
  from assms have m: "1 \<le> m" "m \<le> 12" by (simp_all add: valid_date_def)
  from day_within_year [OF assms] show ?thesis
    using m by (simp add: day_number_def MakeDay_in_year DayFromYear_step)
qed

lemma month_of_day_within_year:
  assumes "1 \<le> m" "m \<le> 12" "1 \<le> d" "d \<le> days_in_month y m"
    and "l = (if DaysInYear y = 366 then 1 else 0)"
    and "dw = month_start l (m - 1) + d - 1"
  shows "(if dw < 31 then 0 else if dw < 59 + l then 1 else if dw < 90 + l then 2
      else if dw < 120 + l then 3 else if dw < 151 + l then 4 else if dw < 181 + l then 5
      else if dw < 212 + l then 6 else if dw < 243 + l then 7 else if dw < 273 + l then 8
      else if dw < 304 + l then 9 else if dw < 334 + l then 10 else 11) = m - 1"
proof -
  from DaysInYear_cases [of y] show ?thesis
  proof
    assume "DaysInYear y = 365"
    with assms(5) have l: "l = 0" by simp
    from month_cases [OF assms(1,2)] assms(3,4) \<open>DaysInYear y = 365\<close> show ?thesis
      by (elim disjE) (simp_all add: assms(6) l month_start_def days_in_month_def)
  next
    assume "DaysInYear y = 366"
    with assms(5) have l: "l = 1" by simp
    from month_cases [OF assms(1,2)] assms(3,4) \<open>DaysInYear y = 366\<close> show ?thesis
      by (elim disjE) (simp_all add: assms(6) l month_start_def days_in_month_def)
  qed
qed

lemma civil_of_day_number:
  assumes "valid_date y m d"
  shows "YearFromTime (day_number y m d) = y \<and> MonthFromTime (day_number y m d) = m - 1 \<and>
         DateFromTime (day_number y m d) = d"
proof -
  from assms have m: "1 \<le> m" "m \<le> 12" and d: "1 \<le> d" "d \<le> days_in_month y m"
    by (simp_all add: valid_date_def)
  from day_number_in_year [OF assms] have yr: "YearFromTime (day_number y m d) = y"
    by (intro YearFromTime_unique) simp_all
  have dw: "DayWithinYear (day_number y m d) =
      month_start (if DaysInYear y = 366 then 1 else 0) (m - 1) + d - 1"
  proof -
    have "DayWithinYear (day_number y m d) = day_number y m d - DayFromYear y"
      by (simp only: DayWithinYear_def yr)
    then show ?thesis using m by (simp add: day_number_def MakeDay_in_year)
  qed
  have il: "InLeapYear (day_number y m d) = (if DaysInYear y = 366 then 1 else 0)"
    by (simp only: InLeapYear_def yr)
  have dw': "DayWithinYear (day_number y m d) =
      month_start (InLeapYear (day_number y m d)) (m - 1) + d - 1"
    by (simp only: dw il)
  have mo: "MonthFromTime (day_number y m d) = m - 1"
    unfolding MonthFromTime_def Let_def
    by (rule month_of_day_within_year [OF m d il dw'])
  have "DateFromTime (day_number y m d) = d"
    by (simp add: DateFromTime_def dw il mo)
  with yr mo show ?thesis by simp
qed

subsection \<open>getFirstOccurrence\<close>

lemma DateFromTime_range: "1 \<le> DateFromTime t \<and> DateFromTime t \<le> 31"
proof -
  note b = DayWithinYear_bounds [of t]
  from DaysInYear_cases [of "YearFromTime t"] show ?thesis
  proof
    assume l: "DaysInYear (YearFromTime t) = 365"
    with b show ?thesis
      by (simp add: DateFromTime_def MonthFromTime_def InLeapYear_def month_start_def Let_def)
  next
    assume l: "DaysInYear (YearFromTime t) = 366"
    with b show ?thesis
      by (simp add: DateFromTime_def MonthFromTime_def InLeapYear_def month_start_def Let_def)
  qed
qed

lemma daysToAdd_loop_pos:
  assumes "0 \<le> s" "s \<le> 6" "\<forall>t \<in> set ts. 0 \<le> t \<and> t \<le> 6" "0 < a"
  shows "\<exists>r. daysToAdd_loop (Some s) (map Some ts) (Some a) = Some r \<and>
           r \<in> insert a ((\<lambda>t. (t - s + 7) mod 7) ` set ts) \<and>
           (\<forall>x \<in> insert a ((\<lambda>t. (t - s + 7) mod 7) ` set ts). r \<le> x)"
  using assms(3,4)
proof (induction ts arbitrary: a)
  case Nil
  then show ?case by simp
next
  case (Cons t ts)
  let ?d = "(t - s + 7) mod 7"
  have d: "0 \<le> ?d" by simp
  from Cons.prems have ts: "\<forall>t \<in> set ts. 0 \<le> t \<and> t \<le> 6" and t: "0 \<le> t" "t \<le> 6" by simp_all
  have eq: "s = t \<Longrightarrow> ?d = 0" by simp
  show ?case
  proof (cases "?d = 0")
    case True
    then have "daysToAdd_loop (Some s) (map Some (t # ts)) (Some a) = Some 0" by simp
    moreover have "\<forall>x \<in> insert a ((\<lambda>t. (t - s + 7) mod 7) ` set (t # ts)). 0 \<le> x"
      using Cons.prems(2) by auto
    moreover have "0 \<in> insert a ((\<lambda>t. (t - s + 7) mod 7) ` set (t # ts))"
      using True by (simp add: image_iff)
    ultimately show ?thesis by blast
  next
    case False
    with eq have ne: "s \<noteq> t" by blast
    from False d have pos: "0 < ?d" by simp
    show ?thesis
    proof (cases "?d < a")
      case True
      from Cons.IH [OF ts pos] obtain r where
        r: "daysToAdd_loop (Some s) (map Some ts) (Some ?d) = Some r"
          "r \<in> insert ?d ((\<lambda>t. (t - s + 7) mod 7) ` set ts)"
          "\<forall>x \<in> insert ?d ((\<lambda>t. (t - s + 7) mod 7) ` set ts). r \<le> x"
        by blast
      have "daysToAdd_loop (Some s) (map Some (t # ts)) (Some a) = Some r"
        using False ne True Cons.prems(2) r(1) by simp
      moreover have "r \<in> insert a ((\<lambda>t. (t - s + 7) mod 7) ` set (t # ts))"
        using r(2) by auto
      moreover have "\<forall>x \<in> insert a ((\<lambda>t. (t - s + 7) mod 7) ` set (t # ts)). r \<le> x"
        using r(3) True by auto
      ultimately show ?thesis by blast
    next
      case ge: False
      from Cons.IH [OF ts Cons.prems(2)] obtain r where
        r: "daysToAdd_loop (Some s) (map Some ts) (Some a) = Some r"
          "r \<in> insert a ((\<lambda>t. (t - s + 7) mod 7) ` set ts)"
          "\<forall>x \<in> insert a ((\<lambda>t. (t - s + 7) mod 7) ` set ts). r \<le> x"
        by blast
      have "daysToAdd_loop (Some s) (map Some (t # ts)) (Some a) = Some r"
        using False ne ge Cons.prems(2) r(1) by simp
      moreover have "r \<in> insert a ((\<lambda>t. (t - s + 7) mod 7) ` set (t # ts))"
        using r(2) by auto
      moreover have "\<forall>x \<in> insert a ((\<lambda>t. (t - s + 7) mod 7) ` set (t # ts)). r \<le> x"
        using r(3) ge by auto
      ultimately show ?thesis by blast
    qed
  qed
qed

lemma daysToAdd_loop_zero:
  assumes "0 \<le> s" "s \<le> 6" "\<forall>t \<in> set ts. 0 \<le> t \<and> t \<le> 6" "ts \<noteq> []"
  shows "\<exists>r. daysToAdd_loop (Some s) (map Some ts) (Some 0) = Some r \<and>
           r \<in> (\<lambda>t. (t - s + 7) mod 7) ` set ts \<and>
           (\<forall>x \<in> (\<lambda>t. (t - s + 7) mod 7) ` set ts. r \<le> x)"
proof -
  from assms(4) obtain t rest where ts: "ts = t # rest" by (cases ts) auto
  let ?d = "(t - s + 7) mod 7"
  have d: "0 \<le> ?d" by simp
  have eq: "s = t \<Longrightarrow> ?d = 0" by simp
  show ?thesis
  proof (cases "?d = 0")
    case True
    then have "daysToAdd_loop (Some s) (map Some ts) (Some 0) = Some 0" by (simp add: ts)
    moreover have "\<forall>x \<in> (\<lambda>t. (t - s + 7) mod 7) ` set ts. 0 \<le> x" by auto
    moreover have "0 \<in> (\<lambda>t. (t - s + 7) mod 7) ` set ts"
      using True by (simp add: ts image_iff)
    ultimately show ?thesis by blast
  next
    case False
    with eq have ne: "s \<noteq> t" by blast
    from False d have pos: "0 < ?d" by simp
    from assms(3) have "\<forall>t \<in> set rest. 0 \<le> t \<and> t \<le> 6" by (simp add: ts)
    from daysToAdd_loop_pos [OF assms(1,2) this pos] obtain r where
      r: "daysToAdd_loop (Some s) (map Some rest) (Some ?d) = Some r"
        "r \<in> insert ?d ((\<lambda>t. (t - s + 7) mod 7) ` set rest)"
        "\<forall>x \<in> insert ?d ((\<lambda>t. (t - s + 7) mod 7) ` set rest). r \<le> x"
      by blast
    have "daysToAdd_loop (Some s) (map Some ts) (Some 0) = Some r"
      using False ne r(1) by (simp add: ts)
    with r(2,3) show ?thesis by (auto simp: ts)
  qed
qed

lemma dayMap_of_code:
  "c \<in> set weekday_codes \<Longrightarrow>
     \<exists>w. dayMap c = Some w \<and> 0 \<le> w \<and> w \<le> 6 \<and> weekday_codes ! nat w = c"
  by (auto simp: weekday_codes_def dayMap_def)

lemma dayMap_weekday_code: "dayMap (weekday_code t) = Some (WeekDay t)"
proof -
  from WeekDay_range [of t] have "WeekDay t = 0 \<or> WeekDay t = 1 \<or> WeekDay t = 2 \<or> WeekDay t = 3
      \<or> WeekDay t = 4 \<or> WeekDay t = 5 \<or> WeekDay t = 6" by arith
  then show ?thesis
    by (elim disjE) (simp_all add: weekday_code_def weekday_codes_def dayMap_def)
qed

lemma targetDays_valid:
  "set codes \<subseteq> set weekday_codes \<Longrightarrow>
     targetDays codes = map Some (sort (map (\<lambda>c. the (dayMap c)) codes))"
proof -
  assume v: "set codes \<subseteq> set weekday_codes"
  then have "List.map_filter dayMap codes = map (\<lambda>c. the (dayMap c)) codes \<and>
      filter (\<lambda>v. v = None) (map dayMap codes) = []"
  proof (induction codes)
    case Nil
    then show ?case by (simp add: List.map_filter_simps)
  next
    case (Cons c cs)
    from Cons.prems have "c \<in> set weekday_codes" by simp
    from dayMap_of_code [OF this] obtain w where "dayMap c = Some w" by blast
    with Cons show ?case by (simp add: List.map_filter_simps)
  qed
  then show ?thesis by (simp add: targetDays_def)
qed

lemma weekday_code_in_codes:
  assumes "set codes \<subseteq> set weekday_codes"
  shows "weekday_code t \<in> set codes \<longleftrightarrow> WeekDay t \<in> (\<lambda>c. the (dayMap c)) ` set codes"
proof
  assume "weekday_code t \<in> set codes"
  then have "the (dayMap (weekday_code t)) \<in> (\<lambda>c. the (dayMap c)) ` set codes" by (rule imageI)
  then show "WeekDay t \<in> (\<lambda>c. the (dayMap c)) ` set codes"
    by (simp add: dayMap_weekday_code)
next
  assume "WeekDay t \<in> (\<lambda>c. the (dayMap c)) ` set codes"
  then obtain c where c: "c \<in> set codes" "WeekDay t = the (dayMap c)" by blast
  with assms have "c \<in> set weekday_codes" by blast
  from dayMap_of_code [OF this] c(2) have "weekday_codes ! nat (WeekDay t) = c" by auto
  with c(1) show "weekday_code t \<in> set codes" by (simp add: weekday_code_def)
qed

lemma digit_not_dash: "is_digit c \<Longrightarrow> c \<noteq> CHR ''-''"
  by (auto simp: is_digit_def)

lemma split_date_fields:
  assumes "list_all is_digit ys" "list_all is_digit ms" "list_all is_digit ds"
  shows "str_split CHR ''-'' (ys @ CHR ''-'' # ms @ CHR ''-'' # ds) = [ys, ms, ds]"
proof -
  from assms have "CHR ''-'' \<notin> set ys" "CHR ''-'' \<notin> set ms" "CHR ''-'' \<notin> set ds"
    by (auto simp: list_all_iff dest: digit_not_dash)
  then show ?thesis by (simp add: str_split_append str_split_no_sep)
qed

lemma four_digit_value:
  "list_all is_digit ys \<Longrightarrow> length ys = 4 \<Longrightarrow> dec_value 0 ys < 10000"
proof -
  assume d: "list_all is_digit ys" and l: "length ys = 4"
  then obtain a b c e where ys: "ys = [a, b, c, e]"
    by (cases ys; cases "tl ys"; cases "tl (tl ys)"; cases "tl (tl (tl ys))") auto
  with d have "digit_val a < 10" "digit_val b < 10" "digit_val c < 10" "digit_val e < 10"
    by (simp_all add: digit_val_lt)
  with ys show ?thesis by simp
qed

lemma int_toString_four_digits:
  "1000 \<le> n \<Longrightarrow> n \<le> 9999 \<Longrightarrow> int_toString n = four_digits (nat n)"
proof -
  assume a: "1000 \<le> n" "n \<le> 9999"
  have c: "n div 10 div 10 = n div 100" "n div 100 div 10 = n div 1000"
    by (simp_all add: zdiv_zmult2_eq)
  from a have b: "n div 1000 < 10" "\<not> n div 100 < 10" "\<not> n div 10 < 10" "\<not> n < 10"
    by arith+
  have 1: "int_digits (n div 1000) = [digit_char (nat (n div 1000))]"
    using b by (subst int_digits.simps) simp
  have 2: "int_digits (n div 100) = int_digits (n div 1000) @ [digit_char (nat (n div 100 mod 10))]"
    using b by (subst int_digits.simps) (simp add: c)
  have 3: "int_digits (n div 10) = int_digits (n div 100) @ [digit_char (nat (n div 10 mod 10))]"
    using b by (subst int_digits.simps) (simp add: c)
  have 4: "int_digits n = int_digits (n div 10) @ [digit_char (nat (n mod 10))]"
    using b by (subst int_digits.simps) simp
  have e: "n div 1000 mod 10 = n div 1000" using a b by simp
  have "int_toString n = [digit_char (nat (n div 1000)), digit_char (nat (n div 100 mod 10)),
      digit_char (nat (n div 10 mod 10)), digit_char (nat (n mod 10))]"
    using a by (simp add: int_toString_def 1 2 3 4)
  also have "\<dots> = four_digits (nat n)"
    using a e by (simp add: four_digits_def nat_div_distrib nat_mod_distrib)
  finally show ?thesis .
qed

lemma formatDate_date_text: "formatDate (Some t) = date_text t"
proof -
  from MonthFromTime_range [of t] DateFromTime_range [of t] show ?thesis
    by (simp add: formatDate_def date_text_def getFullYear_def getMonth_def getDate_def
        num_toString_def pad_two_digits)
qed

lemma YearFromTime_ge: "DayFromYear y \<le> t \<Longrightarrow> y \<le> YearFromTime t"
proof (rule ccontr)
  assume a: "DayFromYear y \<le> t" and "\<not> y \<le> YearFromTime t"
  then have "YearFromTime t + 1 \<le> y" by simp
  from DayFromYear_mono [OF this] YearFromTime_bounds [of t] a show False by simp
qed

text \<open>
  Where the year has four significant digits the function does what its comment says. For a
  start date \<^verbatim>\<open>YYYY-MM-DD\<close> that is a calendar date of a year from 1000 on, a non-empty
  array of weekday codes and a time \<^verbatim>\<open>HH:MM\<close>, it returns the text of a day \<open>D\<close>, the
  letter T, the time without its colon, and 00, where \<open>D\<close> is the first day on or after the
  start date whose weekday is in the array; the day is written as year, two-digit month
  and two-digit day, which is \<^verbatim>\<open>YYYYMMDD\<close> up to year 9999.
\<close>

theorem getFirstOccurrence_first_on_or_after:
  assumes ys: "list_all is_digit ys" "length ys = 4"
    and ms: "list_all is_digit ms" "length ms = 2"
    and ds: "list_all is_digit ds" "length ds = 2"
    and year: "1000 \<le> int (dec_value 0 ys)"
    and valid: "valid_date (int (dec_value 0 ys)) (int (dec_value 0 ms)) (int (dec_value 0 ds))"
    and codes: "codes \<noteq> []" "set codes \<subseteq> set weekday_codes"
    and hh: "list_all is_digit hh" "length hh = 2"
    and mi: "list_all is_digit mi" "length mi = 2"
  shows "\<exists>D. getFirstOccurrence (Some (ys @ ''-'' @ ms @ ''-'' @ ds)) (Some codes)
                (Some (hh @ '':'' @ mi))
              = Some (date_text D @ ''T'' @ hh @ mi @ ''00'') \<and>
             day_number (int (dec_value 0 ys)) (int (dec_value 0 ms)) (int (dec_value 0 ds)) \<le> D \<and>
             weekday_code D \<in> set codes \<and>
             (\<forall>D'. day_number (int (dec_value 0 ys)) (int (dec_value 0 ms)) (int (dec_value 0 ds)) \<le> D'
                    \<and> D' < D \<longrightarrow> weekday_code D' \<notin> set codes) \<and>
             (YearFromTime D \<le> 9999 \<longrightarrow>
                date_text D = four_digits (nat (YearFromTime D)) @
                  two_digits (nat (MonthFromTime D + 1)) @ two_digits (nat (DateFromTime D)))"
proof -
  define y where "y = int (dec_value 0 ys)"
  define m where "m = int (dec_value 0 ms)"
  define d where "d = int (dec_value 0 ds)"
  define t0 where "t0 = day_number y m d"
  define ws where "ws = sort (map (\<lambda>c. the (dayMap c)) codes)"
  note v = valid [folded y_def m_def d_def]
  have y1000: "1000 \<le> y" using year by (simp add: y_def)
  have y9999: "y \<le> 9999" using four_digit_value [OF ys] by (simp add: y_def)
  from v have mr: "1 \<le> m" "m \<le> 12" by (simp_all add: valid_date_def)
  \<comment> \<open>the start date and its day number\<close>
  have ne: "ys \<noteq> []" "ms \<noteq> []" "ds \<noteq> []" using ys ms ds by auto
  have sp: "str_split CHR ''-'' (ys @ CHR ''-'' # ms @ CHR ''-'' # ds) = [ys, ms, ds]"
    by (rule split_date_fields [OF ys(1) ms(1) ds(1)])
  have num: "Number ys = Some y" "Number ms = Some m" "Number ds = Some d"
    using ys(1) ms(1) ds(1) ne by (simp_all add: Number_digits y_def m_def d_def)
  have lo: "DayFromYear 1000 \<le> t0"
    using day_number_in_year [OF v] DayFromYear_mono [OF y1000] by (simp add: t0_def)
  have hi: "t0 < DayFromYear 10000"
  proof -
    from y9999 have "y + 1 \<le> 10000" by simp
    from DayFromYear_mono [OF this] day_number_in_year [OF v] show ?thesis by (simp add: t0_def)
  qed
  have c1000: "DayFromYear 1000 = - 354285" and c10000: "DayFromYear 10000 = 2932897"
    by (simp_all add: DayFromYear_def)
  have bd: "Date_new (Some y) (Some (m - 1)) (Some d) = Some t0"
    using y1000 lo hi
    by (simp add: Date_new_def TimeClip_def t0_def day_number_def c1000 c10000)
  \<comment> \<open>the target days and the loop\<close>
  have td: "targetDays codes = map Some ws"
    unfolding ws_def by (rule targetDays_valid [OF codes(2)])
  have wset: "set ws = (\<lambda>c. the (dayMap c)) ` set codes" by (simp add: ws_def)
  have wr: "\<forall>t \<in> set ws. 0 \<le> t \<and> t \<le> 6"
  proof
    fix t assume "t \<in> set ws"
    with wset obtain c where c: "c \<in> set codes" "t = the (dayMap c)" by auto
    with codes(2) have "c \<in> set weekday_codes" by blast
    from dayMap_of_code [OF this] c(2) show "0 \<le> t \<and> t \<le> 6" by auto
  qed
  have wne: "ws \<noteq> []"
  proof
    assume "ws = []"
    then have "set ws = {}" by simp
    with wset codes(1) show False by simp
  qed
  note sr = WeekDay_range [of t0]
  from daysToAdd_loop_zero [OF sr [THEN conjunct1] sr [THEN conjunct2] wr wne]
  obtain r where lp: "daysToAdd_loop (Some (WeekDay t0)) (map Some ws) (Some 0) = Some r"
    and rin: "r \<in> (\<lambda>t. (t - WeekDay t0 + 7) mod 7) ` set ws"
    and rmin: "\<forall>x \<in> (\<lambda>t. (t - WeekDay t0 + 7) mod 7) ` set ws. r \<le> x"
    by blast
  from rin have rr: "0 \<le> r" "r \<le> 6" by auto
  \<comment> \<open>the first date\<close>
  have sd: "setDate (Some t0) (Some (DateFromTime t0 + r)) = Some (t0 + r)"
    using lo hi rr by (simp add: setDate_def setDate_getDate_plus TimeClip_def c1000 c10000)
  have rm: "remove1 CHR '':'' (hh @ CHR '':'' # mi) = hh @ mi"
  proof -
    from hh(1) have "CHR '':'' \<notin> set hh" by (auto simp: list_all_iff dest: digit_not_colon)
    then show ?thesis by (simp add: remove1_append)
  qed
  have res: "getFirstOccurrence (Some (ys @ ''-'' @ ms @ ''-'' @ ds)) (Some codes)
      (Some (hh @ '':'' @ mi)) = Some (date_text (t0 + r) @ ''T'' @ hh @ mi @ ''00'')"
    using codes(1)
    by (simp add: getFirstOccurrence_def Let_def sp num index_def bd getDay_def getDate_def td lp
        sd rm formatDate_date_text)
  \<comment> \<open>it is the first day on or after the start with a weekday of the set\<close>
  have on: "weekday_code (t0 + r) \<in> set codes"
  proof -
    from rin obtain w where w: "w \<in> set ws" "r = (w - WeekDay t0 + 7) mod 7" by blast
    with wr have "0 \<le> w" "w \<le> 6" by auto
    then have "WeekDay (t0 + r) = w"
      unfolding WeekDay_plus w(2) by (simp add: mod_simps)
    with w(1) wset show ?thesis by (simp add: weekday_code_in_codes [OF codes(2)])
  qed
  have first: "weekday_code D' \<notin> set codes" if "t0 \<le> D'" "D' < t0 + r" for D'
  proof
    assume "weekday_code D' \<in> set codes"
    then have "WeekDay D' \<in> set ws" by (simp add: weekday_code_in_codes [OF codes(2)] wset)
    then have "(WeekDay D' - WeekDay t0 + 7) mod 7 \<in> (\<lambda>t. (t - WeekDay t0 + 7) mod 7) ` set ws"
      by (rule imageI)
    with rmin have le: "r \<le> (WeekDay D' - WeekDay t0 + 7) mod 7" by blast
    define k where "k = D' - t0"
    from that rr have k: "0 \<le> k" "k < r" "k < 7" by (simp_all add: k_def)
    have "WeekDay D' = (WeekDay t0 + k) mod 7"
      using WeekDay_plus [of t0 k] by (simp add: k_def)
    then have "(WeekDay D' - WeekDay t0 + 7) mod 7 = k mod 7"
      by (simp add: mod_simps)
    with k le show False by simp
  qed
  have yr: "1000 \<le> YearFromTime (t0 + r)"
    using lo rr by (intro YearFromTime_ge) simp
  have fmt: "date_text (t0 + r) = four_digits (nat (YearFromTime (t0 + r))) @
      two_digits (nat (MonthFromTime (t0 + r) + 1)) @ two_digits (nat (DateFromTime (t0 + r)))"
    if "YearFromTime (t0 + r) \<le> 9999"
    using int_toString_four_digits [OF yr that] by (simp add: date_text_def)
  from res rr on first fmt show ?thesis
    unfolding t0_def y_def m_def d_def
    by (intro exI [of _ "day_number (int (dec_value 0 ys)) (int (dec_value 0 ms))
        (int (dec_value 0 ds)) + r"]) auto
qed

theorem getFirstOccurrence_first_on_or_after_witness:
  "getFirstOccurrence (Some ''2025-09-02'') (Some [''TU'', ''TH'']) (Some ''14:00'')
     = Some ''20250902T140000''"
proof -
  have v: "int (dec_value 0 ''2025'') = 2025" "int (dec_value 0 ''09'') = 9"
    "int (dec_value 0 ''02'') = 2"
    by (simp_all add: digit_val_def)
  have h: "list_all is_digit ''2025''" "length ''2025'' = 4" "list_all is_digit ''09''"
    "length ''09'' = 2" "list_all is_digit ''02''" "length ''02'' = 2"
    "1000 \<le> int (dec_value 0 ''2025'')"
    "valid_date (int (dec_value 0 ''2025'')) (int (dec_value 0 ''09'')) (int (dec_value 0 ''02''))"
    "[''TU'', ''TH''] \<noteq> []" "set [''TU'', ''TH''] \<subseteq> set weekday_codes"
    "list_all is_digit ''14''" "length ''14'' = 2" "list_all is_digit ''00''" "length ''00'' = 2"
    by code_simp+
  have t0: "day_number 2025 9 2 = 20333" by code_simp
  have tu: "weekday_code 20333 \<in> set [''TU'', ''TH'']" by code_simp
  have dt: "date_text 20333 = ''20250902''" by code_simp
  from getFirstOccurrence_first_on_or_after [OF h] obtain D where
    r: "getFirstOccurrence (Some (''2025'' @ ''-'' @ ''09'' @ ''-'' @ ''02'')) (Some [''TU'', ''TH''])
          (Some (''14'' @ '':'' @ ''00'')) = Some (date_text D @ ''T'' @ ''14'' @ ''00'' @ ''00'')"
    and lo: "day_number 2025 9 2 \<le> D"
    and first: "\<forall>D'. day_number 2025 9 2 \<le> D' \<and> D' < D \<longrightarrow> weekday_code D' \<notin> set [''TU'', ''TH'']"
    unfolding v by blast
  have "D = 20333"
  proof (rule ccontr)
    assume "D \<noteq> 20333"
    with lo t0 have "day_number 2025 9 2 \<le> 20333 \<and> 20333 < D" by simp
    with first tu show False by blast
  qed
  with r dt show ?thesis by simp
qed

text \<open>
  C2 fails on the code for the start dates of the years 0000 to 0999, which are of the form
  \<^verbatim>\<open>YYYY-MM-DD\<close> as well. \<^verbatim>\<open>formatDate\<close> pads the month and the day to two digits but
  prints the year as it is, against the comment \<^verbatim>\<open>Format as YYYYMMDDTHHMMSS\<close> above its
  call: with every weekday allowed (so that the first day is the start date itself) the
  date 0500-01-01 comes back with seven characters before the T. And \<^verbatim>\<open>new Date\<close> reads
  a year from 0 to 99 as 1900 plus that year, so that 0050-01-01 comes back as a day of
  1950. No test of the function excludes these years.
\<close>

theorem getFirstOccurrence_short_year:
  "getFirstOccurrence (Some ''0500-01-01'') (Some weekday_codes) (Some ''14:00'')
     = Some ''5000101T140000'' \<and>
   valid_date 500 1 1 \<and>
   weekday_code (day_number 500 1 1) \<in> set weekday_codes \<and>
   four_digits 500 @ two_digits 1 @ two_digits 1 @ ''T'' @ ''1400'' @ ''00'' = ''05000101T140000'' \<and>
   getFirstOccurrence (Some ''0050-01-01'') (Some weekday_codes) (Some ''14:00'')
     = Some ''19500101T140000'' \<and>
   valid_date 50 1 1 \<and>
   weekday_code (day_number 50 1 1) \<in> set weekday_codes \<and>
   four_digits 50 @ two_digits 1 @ two_digits 1 @ ''T'' @ ''1400'' @ ''00'' = ''00500101T140000''"
  by code_simp

subsection \<open>parseExcel\<close>

lemma parseCourseRow_student:
  "parseCourseRow pd row hs (Some s) = Inr c \<Longrightarrow> student c = Some s"
  by (auto simp: parseCourseRow_def Let_def split: sum.splits)

lemma row_step_student:
  assumes "row_step pd hs row (cs, cur) = Inr (cs', cur')"
    and "(case row_student row of Some s' \<Rightarrow> Some s' | None \<Rightarrow> cur) = Some s"
  shows "\<exists>new. cs' = cs @ new \<and> (\<forall>c \<in> set new. student c = Some s) \<and> cur' = Some s"
proof (cases "row = []")
  case True
  with assms show ?thesis by (simp add: row_step_def row_student_def cell_at_def index_def)
next
  case False
  show ?thesis
  proof (cases "truthy (cell_at row 1) \<and> str_includes (the (cell_at row 1)) ''_V ''")
    case no: False
    with False assms show ?thesis by (auto simp: row_step_def Let_def)
  next
    case True
    with False assms obtain c where c: "parseCourseRow pd row hs (Some s) = Inr c"
      and r: "cs' = (if code c \<noteq> [] then cs @ [c] else cs)" "cur' = Some s"
      by (auto simp: row_step_def Let_def split: sum.splits)
    from parseCourseRow_student [OF c] r show ?thesis by auto
  qed
qed

lemma rows_loop_keep:
  assumes "\<forall>r \<in> set rows. row_student r = None"
    and "rows_loop pd hs rows (cs, Some s) = Inr (cs', cur')"
  shows "\<exists>new. cs' = cs @ new \<and> (\<forall>c \<in> set new. student c = Some s) \<and> cur' = Some s"
  using assms
proof (induction rows arbitrary: cs)
  case Nil
  then show ?case by simp
next
  case (Cons r rows)
  from Cons.prems(2) obtain cs1 cur1 where
    1: "row_step pd hs r (cs, Some s) = Inr (cs1, cur1)"
    and 2: "rows_loop pd hs rows (cs1, cur1) = Inr (cs', cur')"
    by (auto split: sum.splits)
  from Cons.prems(1) have n: "row_student r = None" by simp
  from row_step_student [OF 1] n obtain new1 where
    a: "cs1 = cs @ new1" "\<forall>c \<in> set new1. student c = Some s" "cur1 = Some s"
    by auto
  from Cons.prems(1) have "\<forall>r \<in> set rows. row_student r = None" by simp
  from Cons.IH [OF this 2 [unfolded a(3)]] obtain new2 where
    b: "cs' = cs1 @ new2" "\<forall>c \<in> set new2. student c = Some s" "cur' = Some s"
    by blast
  from a b have "cs' = cs @ (new1 @ new2) \<and> (\<forall>c \<in> set (new1 @ new2). student c = Some s)"
    by auto
  with b(3) show ?case by blast
qed

lemma rows_loop_append:
  "rows_loop pd hs (pre @ post) st =
     (case rows_loop pd hs pre st of Inl err \<Rightarrow> Inl err | Inr st' \<Rightarrow> rows_loop pd hs post st')"
  by (induction pre arbitrary: st) (auto split: sum.splits)

text \<open>
  What holds of C3 on the code: a row whose first cell establishes a student passes that
  student, with the fixed term text, to its own course and to the courses of the following
  rows, up to the next row that establishes one.
\<close>

lemma rows_loop_label_block:
  assumes "row_student r = Some s"
    and "\<forall>r' \<in> set mid. row_student r' = None"
    and "rows_loop pd hs (r # mid) (cs, cur) = Inr (cs', cur')"
  shows "\<exists>new. cs' = cs @ new \<and> (\<forall>c \<in> set new. student c = Some s) \<and> cur' = Some s \<and>
           student_term s = ''Current Term''"
proof -
  from assms(3) obtain cs1 cur1 where
    1: "row_step pd hs r (cs, cur) = Inr (cs1, cur1)"
    and 2: "rows_loop pd hs mid (cs1, cur1) = Inr (cs', cur')"
    by (auto split: sum.splits)
  from row_step_student [OF 1] assms(1) obtain new1 where
    a: "cs1 = cs @ new1" "\<forall>c \<in> set new1. student c = Some s" "cur1 = Some s"
    by auto
  from rows_loop_keep [OF assms(2) 2 [unfolded a(3)]] obtain new2 where
    b: "cs' = cs1 @ new2" "\<forall>c \<in> set new2. student c = Some s" "cur' = Some s"
    by blast
  have t: "student_term s = ''Current Term''"
    using assms(1) by (auto simp: row_student_def split: option.splits if_splits)
  from a b have "cs' = cs @ (new1 @ new2) \<and> (\<forall>c \<in> set (new1 @ new2). student c = Some s)"
    by auto
  with b(3) t show ?thesis by blast
qed

text \<open>
  C3 fails on the code: the course of a row labelled \<^verbatim>\<open>Test Student (12345678) - Fall 2025\<close>,
  and the course of the row after it, carry the term text \<^verbatim>\<open>Current Term\<close>, while
  \<^verbatim>\<open>parseStudentInfo\<close> reads the term \<^verbatim>\<open>Fall 2025\<close> from that label.
\<close>

theorem parseExcel_student_term:
  "map student (case parseExcel (\<lambda>s. None) test_grid of Inl err \<Rightarrow> [] | Inr cs \<Rightarrow> cs) =
     [Some \<lparr>student_name = ''Test Student'', student_id = ''12345678'',
            student_term = ''Current Term''\<rparr>,
      Some \<lparr>student_name = ''Test Student'', student_id = ''12345678'',
            student_term = ''Current Term''\<rparr>] \<and>
   parseStudentInfo student_label =
     Some \<lparr>student_name = ''Test Student'', student_id = ''12345678'', student_term = ''Fall 2025''\<rparr>"
  by code_simp

subsection \<open>The date-range expression\<close>

lemma date_token_alt:
  "date_token s = (if is_date_token (take 10 s) then Some (take 10 s, drop 10 s) else None)"
  unfolding date_token_def is_date_token_def Let_def ..

lemma date_token_iff:
  "date_token s = Some (t, r) \<longleftrightarrow> s = t @ r \<and> is_date_token t"
proof
  assume a: "date_token s = Some (t, r)"
  then have "is_date_token (take 10 s) \<and> t = take 10 s \<and> r = drop 10 s"
    by (auto simp: date_token_alt split: if_splits)
  then have "s = t @ r" "is_date_token t" by simp_all
  then show "s = t @ r \<and> is_date_token t" ..
next
  assume a: "s = t @ r \<and> is_date_token t"
  then have "length t = 10" by (simp add: is_date_token_def)
  with a have e: "take 10 s = t" "drop 10 s = r" by simp_all
  with a show "date_token s = Some (t, r)"
    by (simp add: date_token_alt)
qed

lemma date_token_starts_with_digit:
  "is_date_token t \<Longrightarrow> \<exists>c u. t = c # u \<and> is_digit c"
  by (cases t) (simp_all add: is_date_token_def)

lemma dropWhile_spaces_append:
  "list_all is_space w \<Longrightarrow> \<not> is_space c \<Longrightarrow> dropWhile is_space (w @ c # u) = c # u"
  by (induction w) auto

lemma date_range_at_iff:
  "date_range_at s \<noteq> None \<longleftrightarrow>
     (\<exists>d1 w1 w2 d2 post. s = d1 @ w1 @ CHR ''-'' # w2 @ d2 @ post \<and> is_date_token d1 \<and>
        is_date_token d2 \<and> list_all is_space w1 \<and> list_all is_space w2)"
proof
  assume "date_range_at s \<noteq> None"
  then obtain d1 r1 r2 d2 r3 where
    1: "date_token s = Some (d1, r1)" and 2: "dropWhile is_space r1 = CHR ''-'' # r2"
    and 3: "date_token (dropWhile is_space r2) = Some (d2, r3)"
    by (auto simp: date_range_at_def split: option.splits list.splits if_splits)
  from 1 have a: "s = d1 @ r1" "is_date_token d1" by (simp_all add: date_token_iff)
  from 3 have b: "dropWhile is_space r2 = d2 @ r3" "is_date_token d2" by (simp_all add: date_token_iff)
  have "r1 = takeWhile is_space r1 @ dropWhile is_space r1" by simp
  then have r1: "r1 = takeWhile is_space r1 @ CHR ''-'' # r2" by (simp only: 2)
  have "r2 = takeWhile is_space r2 @ dropWhile is_space r2" by simp
  then have r2: "r2 = takeWhile is_space r2 @ d2 @ r3" by (simp only: b(1))
  have "s = d1 @ takeWhile is_space r1 @ CHR ''-'' # takeWhile is_space r2 @ d2 @ r3"
    by (subst a(1), subst r1, subst r2) simp
  moreover have "list_all is_space (takeWhile is_space r1)" "list_all is_space (takeWhile is_space r2)"
    by (auto simp: list_all_iff dest: set_takeWhileD)
  ultimately show "\<exists>d1 w1 w2 d2 post. s = d1 @ w1 @ CHR ''-'' # w2 @ d2 @ post \<and> is_date_token d1 \<and>
        is_date_token d2 \<and> list_all is_space w1 \<and> list_all is_space w2"
    using a(2) b(2) by blast
next
  assume "\<exists>d1 w1 w2 d2 post. s = d1 @ w1 @ CHR ''-'' # w2 @ d2 @ post \<and> is_date_token d1 \<and>
        is_date_token d2 \<and> list_all is_space w1 \<and> list_all is_space w2"
  then obtain d1 w1 w2 d2 post where s: "s = d1 @ w1 @ CHR ''-'' # w2 @ d2 @ post"
    and d: "is_date_token d1" "is_date_token d2" and w: "list_all is_space w1" "list_all is_space w2"
    by blast
  have 1: "date_token s = Some (d1, w1 @ CHR ''-'' # w2 @ d2 @ post)"
    using s d(1) by (simp add: date_token_iff)
  have nd: "\<not> is_space CHR ''-''" by (simp add: is_space_def)
  have 2: "dropWhile is_space (w1 @ CHR ''-'' # w2 @ d2 @ post) = CHR ''-'' # w2 @ d2 @ post"
    by (rule dropWhile_spaces_append [OF w(1) nd])
  from date_token_starts_with_digit [OF d(2)] obtain c u where c: "d2 = c # u" "is_digit c"
    by blast
  then have "\<not> is_space c" by (simp add: digit_not_space)
  from dropWhile_spaces_append [OF w(2) this, of "u @ post"] c
  have 3: "dropWhile is_space (w2 @ d2 @ post) = d2 @ post" by simp
  have 4: "date_token (d2 @ post) = Some (d2, post)"
    using d(2) by (simp add: date_token_iff)
  show "date_range_at s \<noteq> None"
    unfolding date_range_at_def by (simp add: 1 2 3 4)
qed

text \<open>The search for the date range succeeds exactly on the texts that hold one.\<close>

lemma date_range_match_iff: "date_range_match s \<noteq> None \<longleftrightarrow> has_date_range s"
proof (induction s)
  case Nil
  have "\<not> has_date_range []"
    by (auto simp: has_date_range_def is_date_token_def)
  moreover have "date_range_at [] = None"
    by (simp add: date_range_at_def date_token_alt is_date_token_def)
  ultimately show ?case by simp
next
  case (Cons c cs)
  have "has_date_range (c # cs) \<longleftrightarrow> date_range_at (c # cs) \<noteq> None \<or> has_date_range cs"
  proof
    assume "has_date_range (c # cs)"
    then obtain pre d1 w1 w2 d2 post where
      s: "c # cs = pre @ d1 @ w1 @ CHR ''-'' # w2 @ d2 @ post" and
      r: "is_date_token d1" "is_date_token d2" "list_all is_space w1" "list_all is_space w2"
      unfolding has_date_range_def by blast
    show "date_range_at (c # cs) \<noteq> None \<or> has_date_range cs"
    proof (cases pre)
      case Nil
      with s have "c # cs = d1 @ w1 @ CHR ''-'' # w2 @ d2 @ post" by simp
      with r have "date_range_at (c # cs) \<noteq> None"
        unfolding date_range_at_iff by blast
      then show ?thesis ..
    next
      case (Cons p pre')
      with s have "cs = pre' @ d1 @ w1 @ CHR ''-'' # w2 @ d2 @ post" by simp
      with r have "has_date_range cs" unfolding has_date_range_def by blast
      then show ?thesis ..
    qed
  next
    assume "date_range_at (c # cs) \<noteq> None \<or> has_date_range cs"
    then show "has_date_range (c # cs)"
    proof
      assume "date_range_at (c # cs) \<noteq> None"
      then obtain d1 w1 w2 d2 post where
        e: "c # cs = d1 @ w1 @ CHR ''-'' # w2 @ d2 @ post" and
        r: "is_date_token d1" "is_date_token d2" "list_all is_space w1" "list_all is_space w2"
        unfolding date_range_at_iff by blast
      from e have "c # cs = [] @ d1 @ w1 @ CHR ''-'' # w2 @ d2 @ post" by simp
      with r show ?thesis unfolding has_date_range_def by blast
    next
      assume "has_date_range cs"
      then obtain pre d1 w1 w2 d2 post where
        e: "cs = pre @ d1 @ w1 @ CHR ''-'' # w2 @ d2 @ post" and
        r: "is_date_token d1" "is_date_token d2" "list_all is_space w1" "list_all is_space w2"
        unfolding has_date_range_def by blast
      from e have "c # cs = (c # pre) @ d1 @ w1 @ CHR ''-'' # w2 @ d2 @ post" by simp
      with r show ?thesis unfolding has_date_range_def by blast
    qed
  qed
  with Cons show ?case by (cases "date_range_at (c # cs)") auto
qed

subsection \<open>The meetings the parser builds\<close>

text \<open>
  The meetings \<^verbatim>\<open>parseMeetingPatterns\<close> builds hold no carriage return in the fields the
  serializer writes as they are: the times are digits around a colon, the end date is
  digits and dashes, and the day codes are those of the table.
\<close>

lemma digits_unbroken: "list_all is_digit s \<Longrightarrow> unbroken s"
  by (induction s) (auto simp: is_digit_not_CR)

lemma is_date_token_unbroken:
  assumes "is_date_token t"
  shows "unbroken t"
proof -
  from assms have len: "length t = 10" and y: "list_all is_digit (take 4 t)"
    and m: "list_all is_digit (take 2 (drop 5 t))" and d: "list_all is_digit (drop 8 t)"
    and dash: "t ! 4 = CHR ''-''" "t ! 7 = CHR ''-''"
    by (simp_all add: is_date_token_def)
  have eq: "t = take 4 t @ t ! 4 # take 2 (drop 5 t) @ t ! 7 # drop 8 t"
  proof -
    have "t = take 4 t @ drop 4 t" by simp
    also have "drop 4 t = t ! 4 # drop 5 t"
      using len Cons_nth_drop_Suc [of 4 t] by simp
    also have "drop 5 t = take 2 (drop 5 t) @ drop 2 (drop 5 t)"
      by (rule append_take_drop_id [symmetric])
    also have "drop 2 (drop 5 t) = drop 7 t" by simp
    also have "drop 7 t = t ! 7 # drop 8 t"
      using len Cons_nth_drop_Suc [of 7 t] by simp
    finally show ?thesis .
  qed
  have "unbroken (take 4 t @ t ! 4 # take 2 (drop 5 t) @ t ! 7 # drop 8 t)"
    using digits_unbroken [OF y] digits_unbroken [OF m] digits_unbroken [OF d]
    by (simp add: dash)
  with eq show ?thesis by metis
qed

lemma date_range_at_unbroken: "date_range_at s = Some (d1, d2) \<Longrightarrow> unbroken d2"
proof -
  assume "date_range_at s = Some (d1, d2)"
  then obtain r2 r3 where "date_token (dropWhile is_space r2) = Some (d2, r3)"
    by (auto simp: date_range_at_def split: option.splits list.splits if_splits)
  then have "is_date_token d2" by (simp add: date_token_iff)
  then show ?thesis by (rule is_date_token_unbroken)
qed

lemma date_range_match_unbroken: "date_range_match s = Some (d1, d2) \<Longrightarrow> unbroken d2"
proof (induction s)
  case Nil
  then show ?case by (simp add: date_range_at_unbroken)
next
  case (Cons c cs)
  then show ?case
    by (cases "date_range_at (c # cs)") (auto dest: date_range_at_unbroken)
qed

lemma convertTo24Hour_unbroken: "convertTo24Hour t p = Inr r \<Longrightarrow> unbroken r"
  by (auto simp: convertTo24Hour_def Let_def padStart_unbroken num_toString_unbroken
      split: list.splits)

lemma parseDays_unbroken: "list_all unbroken (parseDays s)"
  by (simp add: parseDays_def list_all_iff)

lemma parse_line_unbroken:
  assumes "parse_line l = Inr (Some m)"
  shows "unbroken_meeting m"
proof -
  from assms obtain d1 d2 t1 p1 t2 p2 st et dr dys loc where
    d: "date_range_match dr = Some (d1, d2)"
    and st: "convertTo24Hour t1 p1 = Inr st" and et: "convertTo24Hour t2 p2 = Inr et"
    and m: "m = \<lparr>startDate = Text d1, endDate = Some d2, days = Some (parseDays dys),
                 startTime = Some st, endTime = Some et, location = Some loc\<rparr>"
    by (auto simp: parse_line_def Let_def split: if_splits option.splits sum.splits)
  from date_range_match_unbroken [OF d] convertTo24Hour_unbroken [OF st]
    convertTo24Hour_unbroken [OF et] parseDays_unbroken [of dys]
  show ?thesis by (simp add: m unbroken_meeting_def unbroken_option_def)
qed

lemma parseMeetingPatterns_unbroken:
  assumes "parseMeetingPatterns p = Inr ms"
  shows "list_all unbroken_meeting ms"
proof -
  have "list_all unbroken_meeting (List.map_filter meeting_of_line ls)" for ls
  proof (induction ls)
    case Nil
    then show ?case by (simp add: List.map_filter_simps)
  next
    case (Cons l ls)
    show ?case
    proof (cases "meeting_of_line l")
      case None
      with Cons show ?thesis by (simp add: List.map_filter_simps)
    next
      case (Some m)
      then have "parse_line l = Inr (Some m)"
        by (auto simp: meeting_of_line_def split: sum.splits)
      from parse_line_unbroken [OF this] Some Cons show ?thesis
        by (simp add: List.map_filter_simps)
    qed
  qed
  with assms show ?thesis
    by (auto simp: parseMeetingPatterns_def lines_loop_map_filter split: if_splits)
qed

end
